theory Spec2Isabelle
  imports Main "HOL-Library.Sublist" "HOL-Library.Word"
begin

section \<open>Python text and byte strings\<close>

text \<open>
  The program is \<^verbatim>\<open>teensy_sync.py\<close>. Its text values are Python \<^verbatim>\<open>str\<close>; they are
  modelled as \<^typ>\<open>string\<close>, a \<^typ>\<open>char\<close> standing for the Unicode code point of the same
  number, so the model covers text over U+0000 .. U+00FF. The three library operations
  whose result depends on the character class are written out for that range:
  \<^verbatim>\<open>str.isspace\<close> (used by \<^verbatim>\<open>split()\<close> and \<^verbatim>\<open>strip()\<close>), \<^verbatim>\<open>str.lower\<close> and the UTF-8
  encoder. Byte strings are lists of 8-bit words.
\<close>

type_synonym byte = "8 word"

datatype error = ValueError | IndexError | SerialTimeoutException | SerialException

definition isspace :: "char \<Rightarrow> bool" where
  "isspace c =
     (let n = (of_char c :: nat)
      in (9 \<le> n \<and> n \<le> 13) \<or> (28 \<le> n \<and> n \<le> 32) \<or> n = 133 \<or> n = 160)"

definition lower_char :: "char \<Rightarrow> char" where
  "lower_char c =
     (let n = (of_char c :: nat)
      in if (65 \<le> n \<and> n \<le> 90) \<or> (192 \<le> n \<and> n \<le> 214) \<or> (216 \<le> n \<and> n \<le> 222)
         then char_of (n + 32) else c)"

definition str_lower :: "string \<Rightarrow> string" where
  "str_lower s = map lower_char s"

definition str_strip :: "string \<Rightarrow> string" where
  "str_strip s = rev (dropWhile isspace (rev (dropWhile isspace s)))"

text \<open>\<^verbatim>\<open>s.split()\<close>: the maximal runs of non-whitespace characters, in order.\<close>

fun split_from :: "string \<Rightarrow> string \<Rightarrow> string list" where
  "split_from cur [] = (if cur = [] then [] else [cur])"
| "split_from cur (c # cs) =
     (if isspace c
      then (if cur = [] then split_from [] cs else cur # split_from [] cs)
      else split_from (cur @ [c]) cs)"

definition str_split :: "string \<Rightarrow> string list" where
  "str_split s = split_from [] s"

fun str_join :: "string \<Rightarrow> string list \<Rightarrow> string" where
  "str_join sep [] = []"
| "str_join sep [x] = x"
| "str_join sep (x # y # ys) = x @ sep @ str_join sep (y # ys)"

definition str_startswith :: "string \<Rightarrow> string \<Rightarrow> bool" where
  "str_startswith s p = (take (length p) s = p)"

text \<open>\<^verbatim>\<open>sub in s\<close> on two strings: \<^verbatim>\<open>sub\<close> occurs in \<^verbatim>\<open>s\<close> as a contiguous run.\<close>

fun str_contains :: "string \<Rightarrow> string \<Rightarrow> bool" where
  "str_contains sub [] = (sub = [])"
| "str_contains sub (c # cs) = (str_startswith (c # cs) sub \<or> str_contains sub cs)"

definition encode_utf8_char :: "char \<Rightarrow> byte list" where
  "encode_utf8_char c =
     (let n = (of_char c :: nat)
      in if n < 128 then [of_nat n] else [of_nat (192 + n div 64), of_nat (128 + n mod 64)])"

definition encode_utf8 :: "string \<Rightarrow> byte list" where
  "encode_utf8 s = concat (map encode_utf8_char s)"

text \<open>
  \<^verbatim>\<open>xs.index(x)\<close> raises \<^verbatim>\<open>ValueError\<close> when \<^verbatim>\<open>x\<close> is not in the list, and \<^verbatim>\<open>xs[i]\<close>
  raises \<^verbatim>\<open>IndexError\<close> out of range (the indices used here are never negative).
\<close>

fun list_index :: "'a list \<Rightarrow> 'a \<Rightarrow> error + nat" where
  "list_index [] x = Inl ValueError"
| "list_index (y # ys) x =
     (if y = x then Inr 0
      else (case list_index ys x of Inl e \<Rightarrow> Inl e | Inr i \<Rightarrow> Inr (Suc i)))"

definition list_get :: "'a list \<Rightarrow> nat \<Rightarrow> error + 'a" where
  "list_get xs i = (if i < length xs then Inr (xs ! i) else Inl IndexError)"

text \<open>The position of the first occurrence of \<open>x\<close> in \<open>xs\<close>, to state what \<^verbatim>\<open>index\<close> returns.\<close>

definition first_index :: "'a list \<Rightarrow> 'a \<Rightarrow> nat" where
  "first_index xs x = length (takeWhile (\<lambda>y. y \<noteq> x) xs)"

section \<open>Response parser\<close>

text \<open>
  \<^verbatim>\<open>parse_id_line\<close>. The result is \<open>Inl e\<close> when the Python raises \<open>e\<close>, \<open>Inr None\<close>
  when it returns \<^verbatim>\<open>None\<close> and \<open>Inr (Some (board_id, fw, caps))\<close> when it returns the
  tuple. Both \<^verbatim>\<open>index\<close> calls stand in one \<^verbatim>\<open>try\<close> whose handler catches
  \<^verbatim>\<open>ValueError\<close> only.
\<close>

definition parse_id_line :: "string \<Rightarrow> error + (string \<times> string \<times> string) option" where
  "parse_id_line line =
     (if \<not> str_startswith line ''ID '' then Inr None
      else
        let parts = str_split line in
        case list_index parts ''FW'' of
          Inl e \<Rightarrow> (if e = ValueError then Inr None else Inl e)
        | Inr i_fw \<Rightarrow>
            (case list_index parts ''CAPS'' of
               Inl e \<Rightarrow> (if e = ValueError then Inr None else Inl e)
             | Inr i_caps \<Rightarrow>
                 if length parts < 2 \<or> i_fw + 1 \<ge> length parts then Inr None
                 else
                   (case list_get parts 1 of
                      Inl e \<Rightarrow> Inl e
                    | Inr board_id \<Rightarrow>
                        (case list_get parts (i_fw + 1) of
                           Inl e \<Rightarrow> Inl e
                         | Inr fw \<Rightarrow>
                             let caps = (if i_caps + 1 < length parts
                                         then str_join '' '' (drop (i_caps + 1) parts)
                                         else '''')
                             in Inr (Some (board_id, fw, caps))))))"

section \<open>Endpoint filter\<close>

text \<open>
  A candidate endpoint is pyserial's \<^verbatim>\<open>ListPortInfo\<close>. Its text attributes may be
  \<^verbatim>\<open>None\<close> (and \<^verbatim>\<open>manufacturer\<close> may be missing, which \<^verbatim>\<open>getattr\<close> turns into
  the empty string); \<^verbatim>\<open>x or ""\<close> maps both \<^verbatim>\<open>None\<close> and the empty string to the
  empty string.
\<close>

record port_info =
  device :: string
  description :: "string option"
  hwid :: "string option"
  manufacturer :: "string option"

definition or_empty :: "string option \<Rightarrow> string" where
  "or_empty v = (case v of None \<Rightarrow> [] | Some s \<Rightarrow> s)"

definition is_usb_serial_port :: "port_info \<Rightarrow> bool" where
  "is_usb_serial_port p =
     (let dsc = str_lower (or_empty (description p));
          hw = str_lower (or_empty (hwid p));
          manuf = str_lower (or_empty (manufacturer p))
      in if str_contains ''teensy'' dsc \<or> str_contains ''teensy'' manuf \<or> str_contains ''teensy'' hw
         then True
         else if str_contains ''usb serial device'' dsc then True
         else if str_contains ''usb'' dsc \<and> \<not> str_contains ''bluetooth'' dsc then True
         else if str_contains ''usb'' hw \<and> \<not> str_contains ''bluetooth'' hw then True
         else if str_contains ''bluetooth'' dsc \<or> str_contains ''bluetooth'' hw then False
         else if str_contains ''modem'' dsc \<or> str_contains ''modem'' hw then False
         else if str_contains ''standard serial over bluetooth'' dsc then False
         else False)"

text \<open>
  The filter as the specification words it (section 4.1): eight rules, the first that
  matches decides. The product's name token and the vendor's Bluetooth phrase are the
  source's constants.
\<close>

definition isInScope :: "port_info \<Rightarrow> bool" where
  "isInScope c =
     (let d = str_lower (or_empty (description c));
          h = str_lower (or_empty (hwid c));
          m = str_lower (or_empty (manufacturer c))
      in if str_contains ''teensy'' d \<or> str_contains ''teensy'' h \<or> str_contains ''teensy'' m
         then True
         else if str_contains ''usb serial device'' d then True
         else if str_contains ''usb'' d \<and> \<not> str_contains ''bluetooth'' d then True
         else if str_contains ''usb'' h \<and> \<not> str_contains ''bluetooth'' h then True
         else if str_contains ''bluetooth'' d \<or> str_contains ''bluetooth'' h
                 \<or> str_contains ''bluetooth'' m then False
         else if str_contains ''modem'' d \<or> str_contains ''modem'' h \<or> str_contains ''modem'' m
         then False
         else if str_contains ''standard serial over bluetooth'' d then False
         else False)"

text \<open>\<^verbatim>\<open>is_usb_serial_port\<close> with its three reject tests (the "Strong rejects") deleted.\<close>

definition is_usb_serial_port_accepts_only :: "port_info \<Rightarrow> bool" where
  "is_usb_serial_port_accepts_only p =
     (let dsc = str_lower (or_empty (description p));
          hw = str_lower (or_empty (hwid p));
          manuf = str_lower (or_empty (manufacturer p))
      in if str_contains ''teensy'' dsc \<or> str_contains ''teensy'' manuf \<or> str_contains ''teensy'' hw
         then True
         else if str_contains ''usb serial device'' dsc then True
         else if str_contains ''usb'' dsc \<and> \<not> str_contains ''bluetooth'' dsc then True
         else if str_contains ''usb'' hw \<and> \<not> str_contains ''bluetooth'' hw then True
         else False)"

section \<open>Serial transports\<close>

text \<open>
  The serial transport is outside the program, so its behaviour is an input of the
  model. A \<open>serial_script\<close> says, for the one \<^verbatim>\<open>serial.Serial\<close> object the program
  creates for an endpoint, which operation raises and what the reads deliver:
  \<^item> \<open>open_error\<close>: the exception \<^verbatim>\<open>open_port\<close> raises, if any;
  \<^item> \<open>reset_input_error\<close>, \<open>reset_output_error\<close>, \<open>write_error\<close>, \<open>flush_error\<close>,
    \<open>close_error\<close>: the exception the call raises, if any (each is called at most once
    on one object);
  \<^item> \<open>read_windows\<close>: for each call of \<^verbatim>\<open>read_lines_for\<close> on the object, in order, the
    outcomes of the \<^verbatim>\<open>readline\<close> calls made before its deadline. A \<open>Readline\<close>
    outcome carries the text the returned bytes decode to under
    \<^verbatim>\<open>decode(errors="ignore")\<close>, which is total on byte strings; the empty text stands
    for an empty read. The clock advances at each call, so a window is a finite list.
  The timing parameters are held at their defaults, under which \<^verbatim>\<open>time.sleep\<close> returns,
  and \<^verbatim>\<open>print\<close> is taken to return. The exceptions of the model are the ones the
  program's handlers are written for, all of class \<^verbatim>\<open>Exception\<close>: \<open>SerialTimeoutException\<close>
  is pyserial's write timeout and \<open>SerialException\<close> stands for any other exception of
  a transport call.

  What the program does to the outside world is recorded as a list of events. An
  object is named by the position of its endpoint in the input list.
\<close>

datatype read_event = ReadlineRaises error | Readline string

record serial_script =
  open_error :: "error option"
  reset_input_error :: "error option"
  reset_output_error :: "error option"
  write_error :: "error option"
  flush_error :: "error option"
  read_windows :: "read_event list list"
  close_error :: "error option"

datatype message =
    WarnCouldNotOpen string string error
  | NoPortsOpened
  | WarnWriteTimeout string string
  | WarnWriteError string string error
  | AckTrace string "string list"

datatype event =
    OpenPort nat
  | OpenFailed nat
  | ResetInputBuffer nat
  | ResetOutputBuffer nat
  | Write nat "byte list"
  | Flush nat
  | ReadLinesFor nat
  | Close nat
  | Print message

definition window :: "serial_script \<Rightarrow> nat \<Rightarrow> read_event list" where
  "window s k = (if k < length (read_windows s) then read_windows s ! k else [])"

text \<open>
  \<^verbatim>\<open>read_lines_for\<close>, over the \<^verbatim>\<open>readline\<close> outcomes of its window: a raising
  \<^verbatim>\<open>readline\<close> ends the loop with the lines collected so far, an empty read and a line
  that is empty after \<^verbatim>\<open>strip()\<close> are skipped.
\<close>

fun read_lines_for :: "read_event list \<Rightarrow> string list" where
  "read_lines_for [] = []"
| "read_lines_for (ReadlineRaises e # rest) = []"
| "read_lines_for (Readline raw # rest) =
     (if raw = [] then read_lines_for rest
      else
        let line = str_strip raw
        in if line \<noteq> [] then line # read_lines_for rest else read_lines_for rest)"

section \<open>Discovery engine\<close>

record board =
  port :: string
  board_id :: string
  fw :: string
  caps :: string
  desc :: string

definition DISCOVER_CMD :: string where
  "DISCOVER_CMD = ''DISCOVER?'' @ [CHR 0x0A]"

definition find_id_line :: "string list \<Rightarrow> string option" where
  "find_id_line lines = find (\<lambda>ln. str_startswith ln ''ID '') lines"

text \<open>
  The body of the \<^verbatim>\<open>try\<close> that follows a successful open, for the object \<open>i\<close> of
  endpoint \<open>p\<close>: the events, and \<open>Inl e\<close> when \<open>e\<close> leaves the body, \<open>Inr None\<close> when
  the body ends (or \<^verbatim>\<open>continue\<close>s) with no board, \<open>Inr (Some b)\<close> when it appends \<open>b\<close>.
\<close>

definition query_port :: "nat \<Rightarrow> port_info \<Rightarrow> serial_script \<Rightarrow> event list \<times> (error + board option)" where
  "query_port i p s =
     (let ev_reset = (case reset_input_error s of
                        Some e \<Rightarrow> [ResetInputBuffer i]
                      | None \<Rightarrow> [ResetInputBuffer i, ResetOutputBuffer i]);
          ev_write = ev_reset @ [Write i (encode_utf8 DISCOVER_CMD)]
      in case write_error s of
           Some e \<Rightarrow> (ev_write, Inr None)
         | None \<Rightarrow>
            (case flush_error s of
               Some e \<Rightarrow> (ev_write @ [Flush i], Inr None)
             | None \<Rightarrow>
                (let lines = read_lines_for (window s 0);
                     ev_read = ev_write @ [Flush i, ReadLinesFor i];
                     (ev, id_line) =
                       (case find_id_line lines of
                          Some ln \<Rightarrow> (ev_read, Some ln)
                        | None \<Rightarrow> (ev_read @ [ReadLinesFor i],
                                   find_id_line (read_lines_for (window s 1))))
                 in case id_line of
                      None \<Rightarrow> (ev, Inr None)
                    | Some ln \<Rightarrow>
                       (case parse_id_line ln of
                          Inl e \<Rightarrow> (ev, Inl e)
                        | Inr None \<Rightarrow> (ev, Inr None)
                        | Inr (Some (bid, fwv, cps)) \<Rightarrow>
                            (ev, Inr (Some \<lparr>port = device p, board_id = bid, fw = fwv,
                                              caps = cps, desc = or_empty (description p)\<rparr>))))))"

text \<open>
  One pass of the \<^verbatim>\<open>for p in ports\<close> loop: a failed open skips the endpoint; after a
  successful one the \<^verbatim>\<open>finally\<close> clause calls \<^verbatim>\<open>close\<close> whatever the body did, and an
  exception of \<^verbatim>\<open>close\<close> is swallowed.
\<close>

definition scan_port :: "nat \<Rightarrow> port_info \<Rightarrow> serial_script \<Rightarrow> event list \<times> (error + board option)" where
  "scan_port i p s =
     (case open_error s of
        Some e \<Rightarrow> ([OpenFailed i], Inr None)
      | None \<Rightarrow> (case query_port i p s of (ev, r) \<Rightarrow> (OpenPort i # ev @ [Close i], r)))"

fun scan_ports :: "(nat \<times> port_info \<times> serial_script) list \<Rightarrow> event list \<times> (error + board list)" where
  "scan_ports [] = ([], Inr [])"
| "scan_ports ((i, p, s) # rest) =
     (case scan_port i p s of
        (ev, Inl e) \<Rightarrow> (ev, Inl e)
      | (ev, Inr found) \<Rightarrow>
          (case scan_ports rest of
             (ev', Inl e) \<Rightarrow> (ev @ ev', Inl e)
           | (ev', Inr boards) \<Rightarrow>
               (ev @ ev', Inr ((case found of None \<Rightarrow> [] | Some b \<Rightarrow> [b]) @ boards))))"

text \<open>The de-duplication loop, with its \<^verbatim>\<open>seen\<close> set.\<close>

fun dedupe :: "string set \<Rightarrow> board list \<Rightarrow> board list" where
  "dedupe seen [] = []"
| "dedupe seen (b # bs) =
     (if board_id b \<in> seen then dedupe seen bs
      else b # dedupe (insert (board_id b) seen) bs)"

text \<open>
  \<^verbatim>\<open>discover_boards\<close>, given what \<^verbatim>\<open>list_ports.comports()\<close> returns, each endpoint
  with the script of its transport.
\<close>

definition discover_boards :: "(port_info \<times> serial_script) list \<Rightarrow> event list \<times> (error + board list)" where
  "discover_boards ports_all =
     (let ports = filter (\<lambda>(i, p, s). is_usb_serial_port p) (enumerate 0 ports_all)
      in case scan_ports ports of
           (ev, Inl e) \<Rightarrow> (ev, Inl e)
         | (ev, Inr boards) \<Rightarrow> (ev, Inr (dedupe {} boards)))"

section \<open>Broadcast coordinator\<close>

text \<open>
  An open \<^verbatim>\<open>serial.Serial\<close> object: its name, its \<^verbatim>\<open>port\<close> attribute and its script.
  The table \<^verbatim>\<open>sers\<close> is a Python dictionary: it keeps the keys in the order of their
  first insertion, and an assignment to a key it holds replaces the value in place.

  The table holds the only reference to an object it stores. An assignment to a key it
  holds therefore drops the last reference to the object stored there, CPython
  finalizes that object at once, and the finalizer of a \<^verbatim>\<open>serial.Serial\<close> (an
  \<^verbatim>\<open>io.RawIOBase\<close>) calls \<^verbatim>\<open>close()\<close> on it; an exception of that call is ignored.
  \<open>displaced\<close> is that call. The event \<open>Close i\<close> records \<^verbatim>\<open>close()\<close> called on the
  open object \<open>i\<close>, by the program or by the finalizer; a finalizer that finds its
  object closed already does nothing and leaves no event.
\<close>

record serial =
  ser_id :: nat
  ser_port :: string
  ser_script :: serial_script

fun dict_set :: "('k \<times> 'v) list \<Rightarrow> 'k \<Rightarrow> 'v \<Rightarrow> ('k \<times> 'v) list" where
  "dict_set [] k v = [(k, v)]"
| "dict_set ((k', v') # d) k v =
     (if k' = k then (k, v) # d else (k', v') # dict_set d k v)"

definition displaced :: "(string \<times> serial) list \<Rightarrow> string \<Rightarrow> event list" where
  "displaced sers k = (case map_of sers k of None \<Rightarrow> [] | Some old \<Rightarrow> [Close (ser_id old)])"

fun open_ports :: "(nat \<times> board \<times> serial_script) list \<Rightarrow> (string \<times> serial) list
    \<Rightarrow> event list \<times> (string \<times> serial) list" where
  "open_ports [] sers = ([], sers)"
| "open_ports ((i, b, s) # rest) sers =
     (case open_error s of
        None \<Rightarrow>
          (case open_ports rest
                  (dict_set sers (board_id b) \<lparr>ser_id = i, ser_port = port b, ser_script = s\<rparr>) of
             (ev, sers') \<Rightarrow> (OpenPort i # displaced sers (board_id b) @ ev, sers'))
      | Some e \<Rightarrow>
          (case open_ports rest sers of
             (ev, sers') \<Rightarrow>
               (OpenFailed i # Print (WarnCouldNotOpen (board_id b) (port b) e) # ev, sers')))"

definition write_payload :: "byte list \<Rightarrow> string \<times> serial \<Rightarrow> event list" where
  "write_payload payload = (\<lambda>(bid, ser).
     [ResetInputBuffer (ser_id ser), Write (ser_id ser) payload] @
     (case write_error (ser_script ser) of
        None \<Rightarrow> []
      | Some e \<Rightarrow>
          if e = SerialTimeoutException then [Print (WarnWriteTimeout bid (ser_port ser))]
          else [Print (WarnWriteError bid (ser_port ser) e)]))"

definition flush_port :: "string \<times> serial \<Rightarrow> event list" where
  "flush_port = (\<lambda>(bid, ser). [Flush (ser_id ser)])"

definition read_ack :: "string \<times> serial \<Rightarrow> event list" where
  "read_ack = (\<lambda>(bid, ser).
     ReadLinesFor (ser_id ser) #
     (let lines = read_lines_for (window (ser_script ser) 0)
      in if lines \<noteq> [] then [Print (AckTrace bid (drop (length lines - 8) lines))] else []))"

definition close_port :: "string \<times> serial \<Rightarrow> event list" where
  "close_port = (\<lambda>(bid, ser). [Close (ser_id ser)])"

text \<open>
  \<^verbatim>\<open>broadcast_command\<close>: every call that can raise stands in a handler of its own, so
  the steps run to the end and the \<^verbatim>\<open>finally\<close> clause closes what the table holds. The
  result is the list of events; the Python returns \<^verbatim>\<open>None\<close>.
\<close>

definition broadcast_command :: "(board \<times> serial_script) list \<Rightarrow> string \<Rightarrow> event list" where
  "broadcast_command boards cmd =
     (case open_ports (enumerate 0 boards) [] of
        (ev_open, sers) \<Rightarrow>
          if sers = [] then ev_open @ [Print NoPortsOpened] @ concat (map close_port sers)
          else
            let payload = encode_utf8 (str_strip cmd @ [CHR 0x0A])
            in ev_open @ concat (map (write_payload payload) sers)
               @ concat (map flush_port sers)
               @ concat (map read_ack sers)
               @ concat (map close_port sers))"

section \<open>Notions used to state the properties\<close>

text \<open>
  What one endpoint's pass of the discovery loop appends to \<^verbatim>\<open>boards\<close>, and the list
  \<^verbatim>\<open>boards\<close> after the loop: the boards of the in-scope endpoints that answered, in
  enumeration order, before de-duplication.
\<close>

definition found_by :: "port_info \<Rightarrow> serial_script \<Rightarrow> board option" where
  "found_by p s = (case snd (scan_port 0 p s) of Inr (Some b) \<Rightarrow> Some b | _ \<Rightarrow> None)"

definition reported :: "(port_info \<times> serial_script) list \<Rightarrow> board list" where
  "reported ports_all =
     List.map_filter (\<lambda>(p, s). found_by p s)
       (filter (\<lambda>(p, s). is_usb_serial_port p) ports_all)"

text \<open>
  The calls the program makes on the open object \<open>i\<close>, as they stand in a list of
  events, and the payloads it writes to it.
\<close>

fun uses_port :: "nat \<Rightarrow> event \<Rightarrow> bool" where
  "uses_port i (ResetInputBuffer j) = (j = i)"
| "uses_port i (ResetOutputBuffer j) = (j = i)"
| "uses_port i (Write j payload) = (j = i)"
| "uses_port i (Flush j) = (j = i)"
| "uses_port i (ReadLinesFor j) = (j = i)"
| "uses_port i (Close j) = (j = i)"
| "uses_port i (OpenPort j) = False"
| "uses_port i (OpenFailed j) = False"
| "uses_port i (Print m) = False"

definition calls_on :: "nat \<Rightarrow> event list \<Rightarrow> event list" where
  "calls_on i tr = filter (uses_port i) tr"

fun written :: "nat \<Rightarrow> event \<Rightarrow> byte list option" where
  "written i (Write j payload) = (if j = i then Some payload else None)"
| "written i (OpenPort j) = None"
| "written i (OpenFailed j) = None"
| "written i (ResetInputBuffer j) = None"
| "written i (ResetOutputBuffer j) = None"
| "written i (Flush j) = None"
| "written i (ReadLinesFor j) = None"
| "written i (Close j) = None"
| "written i (Print m) = None"

definition writes_to :: "nat \<Rightarrow> event list \<Rightarrow> byte list list" where
  "writes_to i tr = List.map_filter (written i) tr"

text \<open>
  The object the table \<^verbatim>\<open>sers\<close> holds under a key after the open loop has run over a
  list of boards: the one opened for the last board with that ID whose open succeeded.
\<close>

fun last_open :: "(nat \<times> board \<times> serial_script) list \<Rightarrow> string \<Rightarrow> serial option" where
  "last_open [] k = None"
| "last_open ((i, b, s) # rest) k =
     (case last_open rest k of
        Some v \<Rightarrow> Some v
      | None \<Rightarrow>
          if open_error s = None \<and> board_id b = k
          then Some \<lparr>ser_id = i, ser_port = port b, ser_script = s\<rparr>
          else None)"

text \<open>
  Board \<open>i\<close> of the list is the one whose object the table keeps: its open succeeds and
  no later board with the same ID opens.
\<close>

definition retained_at :: "(board \<times> serial_script) list \<Rightarrow> nat \<Rightarrow> bool" where
  "retained_at bs i \<longleftrightarrow>
     i < length bs \<and> open_error (snd (bs ! i)) = None
     \<and> (\<forall>j\<in>{i<..<length bs}.
           open_error (snd (bs ! j)) = None \<longrightarrow> board_id (fst (bs ! j)) \<noteq> board_id (fst (bs ! i)))"

text \<open>The payload \<^verbatim>\<open>broadcast_command\<close> builds from a command.\<close>

definition framed :: "string \<Rightarrow> byte list" where
  "framed cmd = encode_utf8 (str_strip cmd @ [CHR 0x0A])"

section \<open>Scenarios\<close>

text \<open>
  Endpoints, transports and boards of the specification's scenarios (its section 8): a
  transport on which every call succeeds and that delivers the given lines in its first
  read window, a USB endpoint and a Bluetooth endpoint.
\<close>

definition answering :: "string list \<Rightarrow> serial_script" where
  "answering lines =
     \<lparr>open_error = None, reset_input_error = None, reset_output_error = None,
      write_error = None, flush_error = None,
      read_windows = [map Readline lines], close_error = None\<rparr>"

definition usb_endpoint :: "string \<Rightarrow> port_info" where
  "usb_endpoint dev =
     \<lparr>device = dev, description = Some ''USB Serial Device'', hwid = None, manufacturer = None\<rparr>"

definition bluetooth_endpoint :: "string \<Rightarrow> port_info" where
  "bluetooth_endpoint dev =
     \<lparr>device = dev, description = Some ''Bluetooth link'', hwid = None, manufacturer = None\<rparr>"

definition board_at :: "string \<Rightarrow> string \<Rightarrow> board" where
  "board_at dev bid =
     \<lparr>port = dev, board_id = bid, fw = ''1.2'', caps = ''wave,row0'', desc = ''USB Serial Device''\<rparr>"

section \<open>Properties of the response parser\<close>

lemma list_index_eq:
  "list_index xs x = (if x \<in> set xs then Inr (first_index xs x) else Inl ValueError)"
  by (induction xs) (auto simp: first_index_def)

lemma parse_id_line_eq:
  "parse_id_line line =
     Inr (if str_startswith line ''ID '' \<and> ''FW'' \<in> set (str_split line)
             \<and> ''CAPS'' \<in> set (str_split line)
             \<and> Suc (first_index (str_split line) ''FW'') < length (str_split line)
          then Some (str_split line ! 1,
                     str_split line ! Suc (first_index (str_split line) ''FW''),
                     str_join '' '' (drop (Suc (first_index (str_split line) ''CAPS''))
                                       (str_split line)))
          else None)"
  by (auto simp: parse_id_line_def list_index_eq list_get_def Let_def)

lemma parse_id_line_returns: "\<exists>r. parse_id_line line = Inr r"
  by (simp add: parse_id_line_eq)

lemma split_from_word:
  "\<forall>c\<in>set w. \<not> isspace c \<Longrightarrow> split_from cur (w @ rest) = split_from (cur @ w) rest"
  by (induction w arbitrary: cur) auto

lemma str_split_word:
  assumes "w \<noteq> []" and "\<forall>c\<in>set w. \<not> isspace c" and "isspace c"
  shows "str_split (w @ c # rest) = w # str_split rest"
  using assms by (simp add: str_split_def split_from_word)

lemma isspace_space: "isspace CHR '' ''"
  by (simp add: isspace_def)

lemma id_line_split:
  assumes "bid \<noteq> []" and "\<forall>c\<in>set bid. \<not> isspace c"
    and "fwv \<noteq> []" and "\<forall>c\<in>set fwv. \<not> isspace c"
  shows "str_split (''ID '' @ bid @ '' FW '' @ fwv @ '' CAPS '' @ C)
           = ''ID'' # bid # ''FW'' # fwv # ''CAPS'' # str_split C"
proof -
  have w: "str_split (w @ CHR '' '' # rest) = w # str_split rest"
    if "w \<noteq> []" and "\<forall>c\<in>set w. \<not> isspace c" for w rest
    using that isspace_space by (rule str_split_word)
  have 1: "str_split (''ID '' @ bid @ '' FW '' @ fwv @ '' CAPS '' @ C)
             = ''ID'' # str_split (bid @ CHR '' '' # ''FW '' @ fwv @ '' CAPS '' @ C)"
    using w[of "''ID''" "bid @ '' FW '' @ fwv @ '' CAPS '' @ C"] by (simp add: isspace_def)
  have 2: "str_split (bid @ CHR '' '' # ''FW '' @ fwv @ '' CAPS '' @ C)
             = bid # str_split (''FW '' @ fwv @ '' CAPS '' @ C)"
    using w[OF assms(1,2)] by simp
  have 3: "str_split (''FW '' @ fwv @ '' CAPS '' @ C)
             = ''FW'' # str_split (fwv @ CHR '' '' # ''CAPS '' @ C)"
    using w[of "''FW''" "fwv @ '' CAPS '' @ C"] by (simp add: isspace_def)
  have 4: "str_split (fwv @ CHR '' '' # ''CAPS '' @ C) = fwv # str_split (''CAPS '' @ C)"
    using w[OF assms(3,4)] by simp
  have 5: "str_split (''CAPS '' @ C) = ''CAPS'' # str_split C"
    using w[of "''CAPS''" "C"] by (simp add: isspace_def)
  show ?thesis by (simp only: 1 2 3 4 5)
qed

text \<open>
  Claim C2. \<^verbatim>\<open>parse_id_line\<close> never raises. It returns \<^verbatim>\<open>None\<close> unless the line
  starts with \<^verbatim>\<open>"ID "\<close> and its whitespace-separated tokens contain \<^verbatim>\<open>FW\<close> and
  \<^verbatim>\<open>CAPS\<close> with a token after the first \<^verbatim>\<open>FW\<close>; otherwise it returns the token at
  index 1, the token after the first \<^verbatim>\<open>FW\<close>, and the tokens after the first \<^verbatim>\<open>CAPS\<close>
  joined with single spaces (the empty string when there are none). The lines
  \<^verbatim>\<open>"ID X FW"\<close>, \<^verbatim>\<open>"HELLO there"\<close> and \<^verbatim>\<open>""\<close> give \<^verbatim>\<open>None\<close>.
\<close>

theorem parse_id_line_spec:
  "parse_id_line line =
     Inr (if str_startswith line ''ID '' \<and> ''FW'' \<in> set (str_split line)
             \<and> ''CAPS'' \<in> set (str_split line)
             \<and> Suc (first_index (str_split line) ''FW'') < length (str_split line)
          then Some (str_split line ! 1,
                     str_split line ! Suc (first_index (str_split line) ''FW''),
                     str_join '' '' (drop (Suc (first_index (str_split line) ''CAPS''))
                                       (str_split line)))
          else None)
   \<and> str_join '' '' [] = []
   \<and> parse_id_line ''ID X FW'' = Inr None
   \<and> parse_id_line ''HELLO there'' = Inr None
   \<and> parse_id_line [] = Inr None"
proof -
  have "parse_id_line ''ID X FW'' = Inr None" by code_simp
  moreover have "parse_id_line ''HELLO there'' = Inr None" by code_simp
  moreover have "parse_id_line [] = Inr None" by code_simp
  ultimately show ?thesis using parse_id_line_eq[of line] by simp
qed

theorem parse_id_line_spec_witness:
  "parse_id_line ''ID B1_BACK_LEFT FW 1.2 CAPS wave,row0''
     = Inr (Some (''B1_BACK_LEFT'', ''1.2'', ''wave,row0''))
   \<and> parse_id_line ''ID B2 CAPS a  b FW 7 c'' = Inr (Some (''B2'', ''7'', ''a b FW 7 c''))
   \<and> parse_id_line ''ID B3 FW 1.0 CAPS'' = Inr (Some (''B3'', ''1.0'', []))"
proof -
  have e: "Inr (if str_startswith l ''ID '' \<and> ''FW'' \<in> set (str_split l)
             \<and> ''CAPS'' \<in> set (str_split l)
             \<and> Suc (first_index (str_split l) ''FW'') < length (str_split l)
          then Some (str_split l ! 1,
                     str_split l ! Suc (first_index (str_split l) ''FW''),
                     str_join '' '' (drop (Suc (first_index (str_split l) ''CAPS''))
                                       (str_split l)))
          else None) = (Inr r :: error + (string \<times> string \<times> string) option)
        \<Longrightarrow> parse_id_line l = Inr r" for l r
    using parse_id_line_spec[of l] by simp
  have "parse_id_line ''ID B1_BACK_LEFT FW 1.2 CAPS wave,row0''
     = Inr (Some (''B1_BACK_LEFT'', ''1.2'', ''wave,row0''))"
    by (rule e) code_simp
  moreover have "parse_id_line ''ID B2 CAPS a  b FW 7 c'' = Inr (Some (''B2'', ''7'', ''a b FW 7 c''))"
    by (rule e) code_simp
  moreover have "parse_id_line ''ID B3 FW 1.0 CAPS'' = Inr (Some (''B3'', ''1.0'', []))"
    by (rule e) code_simp
  ultimately show ?thesis by simp
qed

text \<open>
  Claim C3, as stated, fails: an empty board ID or firmware version, a board ID that is
  \<^verbatim>\<open>FW\<close> or \<^verbatim>\<open>CAPS\<close>, and a firmware version that is \<^verbatim>\<open>CAPS\<close> contain no whitespace,
  and the formatted line parses to other fields.
\<close>

theorem parse_round_trip_counterexample:
  "parse_id_line (''ID '' @ [] @ '' FW '' @ ''1.2'' @ '' CAPS '' @ ''wave'')
      = Inr (Some (''FW'', ''1.2'', ''wave''))
   \<and> parse_id_line (''ID '' @ [] @ '' FW '' @ ''1.2'' @ '' CAPS '' @ ''wave'')
      \<noteq> Inr (Some ([], ''1.2'', str_join '' '' (str_split ''wave'')))
   \<and> parse_id_line (''ID '' @ ''FW'' @ '' FW '' @ ''1.2'' @ '' CAPS '' @ ''wave'')
      = Inr (Some (''FW'', ''FW'', ''wave''))
   \<and> parse_id_line (''ID '' @ ''FW'' @ '' FW '' @ ''1.2'' @ '' CAPS '' @ ''wave'')
      \<noteq> Inr (Some (''FW'', ''1.2'', str_join '' '' (str_split ''wave'')))
   \<and> parse_id_line (''ID '' @ ''CAPS'' @ '' FW '' @ ''1.2'' @ '' CAPS '' @ ''wave'')
      = Inr (Some (''CAPS'', ''1.2'', ''FW 1.2 CAPS wave''))
   \<and> parse_id_line (''ID '' @ ''CAPS'' @ '' FW '' @ ''1.2'' @ '' CAPS '' @ ''wave'')
      \<noteq> Inr (Some (''CAPS'', ''1.2'', str_join '' '' (str_split ''wave'')))
   \<and> parse_id_line (''ID '' @ ''B1'' @ '' FW '' @ [] @ '' CAPS '' @ ''wave'')
      = Inr (Some (''B1'', ''CAPS'', ''wave''))
   \<and> parse_id_line (''ID '' @ ''B1'' @ '' FW '' @ [] @ '' CAPS '' @ ''wave'')
      \<noteq> Inr (Some (''B1'', [], str_join '' '' (str_split ''wave'')))
   \<and> parse_id_line (''ID '' @ ''B1'' @ '' FW '' @ ''CAPS'' @ '' CAPS '' @ ''wave'')
      = Inr (Some (''B1'', ''CAPS'', ''CAPS wave''))
   \<and> parse_id_line (''ID '' @ ''B1'' @ '' FW '' @ ''CAPS'' @ '' CAPS '' @ ''wave'')
      \<noteq> Inr (Some (''B1'', ''CAPS'', str_join '' '' (str_split ''wave'')))"
  by code_simp

text \<open>
  Claim C3, amended. For a board ID that is not empty, contains no whitespace and is
  neither \<^verbatim>\<open>FW\<close> nor \<^verbatim>\<open>CAPS\<close>, a firmware version that is not empty, contains no
  whitespace and is not \<^verbatim>\<open>CAPS\<close>, and any capabilities string \<open>C\<close>, parsing
  \<^verbatim>\<open>"ID " + id + " FW " + fw + " CAPS " + C\<close> returns the board ID, the firmware version
  and the tokens of \<open>C\<close> joined with single spaces.
\<close>

theorem parse_round_trip:
  assumes "bid \<noteq> []" and "\<forall>c\<in>set bid. \<not> isspace c" and "bid \<noteq> ''FW''" and "bid \<noteq> ''CAPS''"
    and "fwv \<noteq> []" and "\<forall>c\<in>set fwv. \<not> isspace c" and "fwv \<noteq> ''CAPS''"
  shows "parse_id_line (''ID '' @ bid @ '' FW '' @ fwv @ '' CAPS '' @ C)
           = Inr (Some (bid, fwv, str_join '' '' (str_split C)))"
proof -
  let ?line = "''ID '' @ bid @ '' FW '' @ fwv @ '' CAPS '' @ C"
  have parts: "str_split ?line = ''ID'' # bid # ''FW'' # fwv # ''CAPS'' # str_split C"
    using assms by (intro id_line_split) auto
  show ?thesis
    using assms(3,4,7) unfolding parse_id_line_eq parts
    by (simp add: first_index_def str_startswith_def)
qed

theorem parse_round_trip_witness:
  "parse_id_line (''ID '' @ ''B1_BACK_LEFT'' @ '' FW '' @ ''1.2'' @ '' CAPS '' @ ''wave   row0 '')
     = Inr (Some (''B1_BACK_LEFT'', ''1.2'', ''wave row0''))"
proof -
  have j: "str_join '' '' (str_split ''wave   row0 '') = ''wave row0''" by code_simp
  have "parse_id_line (''ID '' @ ''B1_BACK_LEFT'' @ '' FW '' @ ''1.2'' @ '' CAPS '' @ ''wave   row0 '')
     = Inr (Some (''B1_BACK_LEFT'', ''1.2'', str_join '' '' (str_split ''wave   row0 '')))"
    by (rule parse_round_trip) (simp_all add: isspace_def)
  then show ?thesis by (simp only: j)
qed

section \<open>Properties of the endpoint filter\<close>

lemma str_startswith_iff: "str_startswith s p \<longleftrightarrow> (\<exists>post. s = p @ post)"
proof
  assume "str_startswith s p"
  then have "s = p @ drop (length p) s"
    by (metis append_take_drop_id str_startswith_def)
  then show "\<exists>post. s = p @ post" ..
next
  assume "\<exists>post. s = p @ post"
  then show "str_startswith s p" by (auto simp: str_startswith_def)
qed

lemma str_contains_iff: "str_contains sub s \<longleftrightarrow> (\<exists>pre post. s = pre @ sub @ post)"
proof (induction s)
  case Nil
  show ?case by auto
next
  case (Cons c cs)
  show ?case
  proof
    assume "str_contains sub (c # cs)"
    then consider "str_startswith (c # cs) sub" | "str_contains sub cs" by auto
    then show "\<exists>pre post. c # cs = pre @ sub @ post"
    proof cases
      case 1
      then obtain post where "c # cs = sub @ post" by (auto simp: str_startswith_iff)
      then have "c # cs = [] @ sub @ post" by simp
      then show ?thesis by blast
    next
      case 2
      then obtain pre post where "cs = pre @ sub @ post" using Cons.IH by auto
      then have "c # cs = (c # pre) @ sub @ post" by simp
      then show ?thesis by blast
    qed
  next
    assume "\<exists>pre post. c # cs = pre @ sub @ post"
    then obtain pre post where e: "c # cs = pre @ sub @ post" by auto
    show "str_contains sub (c # cs)"
    proof (cases pre)
      case Nil
      with e have "str_startswith (c # cs) sub" by (auto simp: str_startswith_iff)
      then show ?thesis by simp
    next
      case (Cons a pre')
      with e have "cs = pre' @ sub @ post" by simp
      then have "str_contains sub cs" using Cons.IH by blast
      then show ?thesis by simp
    qed
  qed
qed

lemma str_lower_append: "str_lower (a @ b) = str_lower a @ str_lower b"
  by (simp add: str_lower_def)

lemma accepts_iff:
  "is_usb_serial_port p \<longleftrightarrow>
     str_contains ''teensy'' (str_lower (or_empty (description p)))
     \<or> str_contains ''teensy'' (str_lower (or_empty (manufacturer p)))
     \<or> str_contains ''teensy'' (str_lower (or_empty (hwid p)))
     \<or> str_contains ''usb serial device'' (str_lower (or_empty (description p)))
     \<or> (str_contains ''usb'' (str_lower (or_empty (description p)))
          \<and> \<not> str_contains ''bluetooth'' (str_lower (or_empty (description p))))
     \<or> (str_contains ''usb'' (str_lower (or_empty (hwid p)))
          \<and> \<not> str_contains ''bluetooth'' (str_lower (or_empty (hwid p))))"
  unfolding is_usb_serial_port_def Let_def by (simp only: if_True if_False split: if_splits) blast

lemma vid_bluetooth_lower:
  "str_contains ''bluetooth'' (str_lower (pre @ ''VID_BLUETOOTH'' @ post))"
proof -
  have l: "str_lower ''VID_BLUETOOTH'' = ''vid_'' @ ''bluetooth''" by code_simp
  have "str_lower (pre @ ''VID_BLUETOOTH'' @ post)
          = (str_lower pre @ ''vid_'') @ ''bluetooth'' @ str_lower post"
    by (simp only: str_lower_append l append_assoc)
  then show ?thesis unfolding str_contains_iff by blast
qed

text \<open>
  Claim C7. \<^verbatim>\<open>is_usb_serial_port\<close> is a function of the description, hardware id and
  manufacturer texts alone, and of their lower-cased forms only (two candidates whose
  three texts agree up to case get the same answer). It is the first-match evaluation
  of the specification's ordered rules. The examples: a candidate with description
  \<^verbatim>\<open>USB Serial Device (COM7)\<close> is accepted; the description
  \<^verbatim>\<open>Standard Serial over Bluetooth link (COM4)\<close> earns no acceptance (the answer is
  what the other two texts earn), so the candidate with only that description is
  rejected; a hardware id containing \<^verbatim>\<open>VID_BLUETOOTH\<close> is never accepted by the
  "usb" rule on the hardware id, so a candidate with only such a hardware id, free of
  the product token, is rejected; a manufacturer containing the product token, in any
  case, is accepted with an empty description.
\<close>

theorem is_usb_serial_port_spec:
  "is_usb_serial_port p = isInScope p
   \<and> (str_lower (or_empty (description p)) = str_lower (or_empty (description q))
        \<and> str_lower (or_empty (hwid p)) = str_lower (or_empty (hwid q))
        \<and> str_lower (or_empty (manufacturer p)) = str_lower (or_empty (manufacturer q))
      \<longrightarrow> is_usb_serial_port p = is_usb_serial_port q)
   \<and> (description p = Some ''USB Serial Device (COM7)'' \<longrightarrow> is_usb_serial_port p)
   \<and> (description p = Some ''Standard Serial over Bluetooth link (COM4)'' \<longrightarrow>
        is_usb_serial_port p =
          (str_contains ''teensy'' (str_lower (or_empty (manufacturer p)))
           \<or> str_contains ''teensy'' (str_lower (or_empty (hwid p)))
           \<or> (str_contains ''usb'' (str_lower (or_empty (hwid p)))
               \<and> \<not> str_contains ''bluetooth'' (str_lower (or_empty (hwid p))))))
   \<and> (description p = Some ''Standard Serial over Bluetooth link (COM4)''
        \<and> or_empty (hwid p) = [] \<and> or_empty (manufacturer p) = []
      \<longrightarrow> \<not> is_usb_serial_port p)
   \<and> (hwid p = Some (pre @ ''VID_BLUETOOTH'' @ post) \<longrightarrow>
        is_usb_serial_port p =
          (str_contains ''teensy'' (str_lower (or_empty (description p)))
           \<or> str_contains ''teensy'' (str_lower (or_empty (manufacturer p)))
           \<or> str_contains ''teensy'' (str_lower (pre @ ''VID_BLUETOOTH'' @ post))
           \<or> str_contains ''usb serial device'' (str_lower (or_empty (description p)))
           \<or> (str_contains ''usb'' (str_lower (or_empty (description p)))
               \<and> \<not> str_contains ''bluetooth'' (str_lower (or_empty (description p))))))
   \<and> (hwid p = Some (pre @ ''VID_BLUETOOTH'' @ post)
        \<and> \<not> str_contains ''teensy'' (str_lower (pre @ ''VID_BLUETOOTH'' @ post))
        \<and> or_empty (description p) = [] \<and> or_empty (manufacturer p) = []
      \<longrightarrow> \<not> is_usb_serial_port p)
   \<and> (manufacturer p = Some m \<and> str_contains ''teensy'' (str_lower m)
        \<and> or_empty (description p) = []
      \<longrightarrow> is_usb_serial_port p)"
proof -
  have rules: "is_usb_serial_port p = isInScope p"
    unfolding is_usb_serial_port_def isInScope_def Let_def by auto
  have case_ins: "is_usb_serial_port p = is_usb_serial_port q"
    if "str_lower (or_empty (description p)) = str_lower (or_empty (description q))"
      and "str_lower (or_empty (hwid p)) = str_lower (or_empty (hwid q))"
      and "str_lower (or_empty (manufacturer p)) = str_lower (or_empty (manufacturer q))"
    using that by (simp only: accepts_iff)
  have d1: "str_contains ''usb serial device'' (str_lower ''USB Serial Device (COM7)'')"
    by code_simp
  have ex1: "is_usb_serial_port p" if "description p = Some ''USB Serial Device (COM7)''"
    using that d1 by (simp add: accepts_iff or_empty_def)
  have d2: "\<not> str_contains ''teensy'' (str_lower ''Standard Serial over Bluetooth link (COM4)'')"
    "\<not> str_contains ''usb serial device'' (str_lower ''Standard Serial over Bluetooth link (COM4)'')"
    "\<not> str_contains ''usb'' (str_lower ''Standard Serial over Bluetooth link (COM4)'')"
    by code_simp+
  have ex2: "is_usb_serial_port p =
          (str_contains ''teensy'' (str_lower (or_empty (manufacturer p)))
           \<or> str_contains ''teensy'' (str_lower (or_empty (hwid p)))
           \<or> (str_contains ''usb'' (str_lower (or_empty (hwid p)))
               \<and> \<not> str_contains ''bluetooth'' (str_lower (or_empty (hwid p)))))"
    if "description p = Some ''Standard Serial over Bluetooth link (COM4)''"
    using that d2 by (simp add: accepts_iff or_empty_def)
  have e0: "\<not> str_contains ''teensy'' (str_lower [])" "\<not> str_contains ''usb'' (str_lower [])"
    "\<not> str_contains ''usb serial device'' (str_lower [])"
    by (simp_all add: str_lower_def)
  have ex2': "\<not> is_usb_serial_port p"
    if "description p = Some ''Standard Serial over Bluetooth link (COM4)''"
      and "or_empty (hwid p) = []" and "or_empty (manufacturer p) = []"
    using ex2[OF that(1)] that(2,3) e0 by simp
  have ex3: "is_usb_serial_port p =
          (str_contains ''teensy'' (str_lower (or_empty (description p)))
           \<or> str_contains ''teensy'' (str_lower (or_empty (manufacturer p)))
           \<or> str_contains ''teensy'' (str_lower (pre @ ''VID_BLUETOOTH'' @ post))
           \<or> str_contains ''usb serial device'' (str_lower (or_empty (description p)))
           \<or> (str_contains ''usb'' (str_lower (or_empty (description p)))
               \<and> \<not> str_contains ''bluetooth'' (str_lower (or_empty (description p)))))"
    if "hwid p = Some (pre @ ''VID_BLUETOOTH'' @ post)"
    using that vid_bluetooth_lower[of pre post] by (simp add: accepts_iff or_empty_def)
  have ex3': "\<not> is_usb_serial_port p"
    if "hwid p = Some (pre @ ''VID_BLUETOOTH'' @ post)"
      and "\<not> str_contains ''teensy'' (str_lower (pre @ ''VID_BLUETOOTH'' @ post))"
      and "or_empty (description p) = []" and "or_empty (manufacturer p) = []"
    using ex3[OF that(1)] that(2,3,4) e0 by simp
  have ex4: "is_usb_serial_port p"
    if "manufacturer p = Some m" and "str_contains ''teensy'' (str_lower m)"
    using that by (simp add: accepts_iff or_empty_def)
  show ?thesis
    using rules case_ins ex1 ex2 ex2' ex3 ex3' ex4 by blast
qed

theorem is_usb_serial_port_spec_witness:
  "is_usb_serial_port \<lparr>device = ''COM7'', description = Some ''USB Serial Device (COM7)'',
                        hwid = None, manufacturer = None\<rparr>
   \<and> is_usb_serial_port \<lparr>device = ''COM7'', description = Some ''usb serial DEVICE (com7)'',
                          hwid = None, manufacturer = None\<rparr>
   \<and> \<not> is_usb_serial_port \<lparr>device = ''COM4'',
                            description = Some ''Standard Serial over Bluetooth link (COM4)'',
                            hwid = None, manufacturer = None\<rparr>
   \<and> \<not> is_usb_serial_port \<lparr>device = ''COM5'', description = None,
                            hwid = Some (''USB '' @ ''VID_BLUETOOTH'' @ ''&PID_0001''),
                            manufacturer = None\<rparr>
   \<and> is_usb_serial_port \<lparr>device = ''COM6'', description = Some [], hwid = None,
                          manufacturer = Some ''PJRC Teensy''\<rparr>"
proof -
  let ?e1 = "\<lparr>device = ''COM7'', description = Some ''USB Serial Device (COM7)'',
               hwid = None, manufacturer = None\<rparr>"
  let ?e1' = "\<lparr>device = ''COM7'', description = Some ''usb serial DEVICE (com7)'',
               hwid = None, manufacturer = None\<rparr>"
  let ?e2 = "\<lparr>device = ''COM4'', description = Some ''Standard Serial over Bluetooth link (COM4)'',
               hwid = None, manufacturer = None\<rparr>"
  let ?e3 = "\<lparr>device = ''COM5'', description = None,
               hwid = Some (''USB '' @ ''VID_BLUETOOTH'' @ ''&PID_0001''), manufacturer = None\<rparr>"
  let ?e4 = "\<lparr>device = ''COM6'', description = Some [], hwid = None,
               manufacturer = Some ''PJRC Teensy''\<rparr>"
  have a: "is_usb_serial_port ?e1"
  proof -
    have "description ?e1 = Some ''USB Serial Device (COM7)''" by simp
    with is_usb_serial_port_spec[of ?e1 ?e1 "[]" "[]" "[]"] show ?thesis by blast
  qed
  have b: "is_usb_serial_port ?e1 = is_usb_serial_port ?e1'"
  proof -
    have "str_lower ''USB Serial Device (COM7)'' = str_lower ''usb serial DEVICE (com7)''"
      by code_simp
    then have "str_lower (or_empty (description ?e1)) = str_lower (or_empty (description ?e1'))"
      and "str_lower (or_empty (hwid ?e1)) = str_lower (or_empty (hwid ?e1'))"
      and "str_lower (or_empty (manufacturer ?e1)) = str_lower (or_empty (manufacturer ?e1'))"
      by (simp_all add: or_empty_def)
    with is_usb_serial_port_spec[of ?e1 ?e1' "[]" "[]" "[]"] show ?thesis by blast
  qed
  have c: "\<not> is_usb_serial_port ?e2"
  proof -
    have "description ?e2 = Some ''Standard Serial over Bluetooth link (COM4)''"
      and "or_empty (hwid ?e2) = []" and "or_empty (manufacturer ?e2) = []"
      by (simp_all add: or_empty_def)
    with is_usb_serial_port_spec[of ?e2 ?e2 "[]" "[]" "[]"] show ?thesis by blast
  qed
  have d: "\<not> is_usb_serial_port ?e3"
  proof -
    have "\<not> str_contains ''teensy'' (str_lower (''USB '' @ ''VID_BLUETOOTH'' @ ''&PID_0001''))"
      by code_simp
    moreover have "hwid ?e3 = Some (''USB '' @ ''VID_BLUETOOTH'' @ ''&PID_0001'')"
      and "or_empty (description ?e3) = []" and "or_empty (manufacturer ?e3) = []"
      by (simp_all add: or_empty_def)
    ultimately show ?thesis
      using is_usb_serial_port_spec[of ?e3 ?e3 "''USB ''" "''&PID_0001''" "[]"] by blast
  qed
  have e: "is_usb_serial_port ?e4"
  proof -
    have "str_contains ''teensy'' (str_lower ''PJRC Teensy'')" by code_simp
    moreover have "manufacturer ?e4 = Some ''PJRC Teensy''" and "or_empty (description ?e4) = []"
      by (simp_all add: or_empty_def)
    ultimately show ?thesis
      using is_usb_serial_port_spec[of ?e4 ?e4 "[]" "[]" "''PJRC Teensy''"] by blast
  qed
  have b': "is_usb_serial_port ?e1'" using a b by simp
  show ?thesis using a b' c d e by simp
qed

text \<open>
  Claim C9. The reject tests of \<^verbatim>\<open>is_usb_serial_port\<close> decide nothing:
  the function is true exactly when one of its four accept tests holds, and it equals
  the function with the three reject tests deleted.
\<close>

theorem reject_rules_redundant:
  "(is_usb_serial_port p \<longleftrightarrow>
      (str_contains ''teensy'' (str_lower (or_empty (description p)))
       \<or> str_contains ''teensy'' (str_lower (or_empty (manufacturer p)))
       \<or> str_contains ''teensy'' (str_lower (or_empty (hwid p))))
      \<or> str_contains ''usb serial device'' (str_lower (or_empty (description p)))
      \<or> (str_contains ''usb'' (str_lower (or_empty (description p)))
           \<and> \<not> str_contains ''bluetooth'' (str_lower (or_empty (description p))))
      \<or> (str_contains ''usb'' (str_lower (or_empty (hwid p)))
           \<and> \<not> str_contains ''bluetooth'' (str_lower (or_empty (hwid p)))))
   \<and> is_usb_serial_port_accepts_only p = is_usb_serial_port p"
  unfolding is_usb_serial_port_def is_usb_serial_port_accepts_only_def Let_def by auto

theorem reject_rules_redundant_witness:
  "is_usb_serial_port_accepts_only
      \<lparr>device = ''COM4'', description = Some ''Bluetooth Modem'', hwid = Some ''BTHENUM'',
       manufacturer = None\<rparr> = False
   \<and> is_usb_serial_port
      \<lparr>device = ''COM4'', description = Some ''Bluetooth Modem'', hwid = Some ''BTHENUM'',
       manufacturer = None\<rparr> = False"
proof -
  let ?p = "\<lparr>device = ''COM4'', description = Some ''Bluetooth Modem'', hwid = Some ''BTHENUM'',
       manufacturer = None\<rparr>"
  have "is_usb_serial_port_accepts_only ?p = False" by code_simp
  then show ?thesis using reject_rules_redundant[of ?p] by simp
qed

section \<open>Properties of the discovery engine\<close>

lemma parse_id_line_not_raises: "parse_id_line line \<noteq> Inl e"
  by (simp add: parse_id_line_eq)

lemma query_port_returns: "\<exists>r. snd (query_port i p s) = Inr r"
  by (auto simp: query_port_def Let_def parse_id_line_not_raises
           split: option.splits sum.splits prod.splits)

lemma query_port_result_indep: "snd (query_port i p s) = snd (query_port j p s)"
  by (auto simp: query_port_def Let_def split: option.splits sum.splits prod.splits)

lemma scan_port_snd:
  "snd (scan_port i p s)
     = (case open_error s of Some e \<Rightarrow> Inr None | None \<Rightarrow> snd (query_port i p s))"
  by (simp add: scan_port_def split: option.splits prod.splits)

lemma scan_port_result: "snd (scan_port i p s) = Inr (found_by p s)"
proof -
  have a: "snd (scan_port i p s) = snd (scan_port 0 p s)"
    using query_port_result_indep[of i p s 0] by (cases "open_error s") (simp_all add: scan_port_snd)
  obtain r where "snd (scan_port 0 p s) = Inr r"
    using query_port_returns[of 0 p s] by (cases "open_error s") (auto simp: scan_port_snd)
  then show ?thesis unfolding a found_by_def by (cases r) auto
qed

lemma scan_ports_result:
  "snd (scan_ports xs) = Inr (List.map_filter (\<lambda>(i, p, s). found_by p s) xs)"
proof (induction xs)
  case Nil
  show ?case by simp
next
  case (Cons x xs)
  obtain i p s where x: "x = (i, p, s)" by (cases x)
  obtain ev where sp: "scan_port i p s = (ev, Inr (found_by p s))"
    using scan_port_result[of i p s] by (cases "scan_port i p s") auto
  obtain ev' where sr: "scan_ports xs = (ev', Inr (List.map_filter (\<lambda>(i, p, s). found_by p s) xs))"
    using Cons.IH by (cases "scan_ports xs") auto
  show ?case by (simp add: x sp sr split: option.splits)
qed

lemma map_filter_tagged:
  "List.map_filter (\<lambda>(i, p, s). f p s) (filter (\<lambda>(i, p, s). P p) (enumerate n xs))
     = List.map_filter (\<lambda>(p, s). f p s) (filter (\<lambda>(p, s). P p) xs)"
  by (induction xs arbitrary: n) (auto split: option.splits)

lemma discover_boards_result: "snd (discover_boards ports_all) = Inr (dedupe {} (reported ports_all))"
proof -
  let ?ports = "filter (\<lambda>(i, p, s). is_usb_serial_port p) (enumerate 0 ports_all)"
  obtain ev where "scan_ports ?ports = (ev, Inr (reported ports_all))"
    using scan_ports_result[of ?ports] unfolding reported_def map_filter_tagged
    by (cases "scan_ports ?ports") auto
  then show ?thesis by (simp add: discover_boards_def)
qed

lemma dedupe_ids: "set (map board_id (dedupe seen bs)) = set (map board_id bs) - seen"
  by (induction bs arbitrary: seen) auto

lemma dedupe_distinct: "distinct (map board_id (dedupe seen bs))"
  by (induction bs arbitrary: seen) (auto simp: dedupe_ids simp flip: set_map)

lemma dedupe_subseq: "subseq (dedupe seen bs) bs"
  by (induction bs arbitrary: seen) auto

lemma dedupe_first:
  "find (\<lambda>b. board_id b = k) (dedupe seen bs)
     = (if k \<in> seen then None else find (\<lambda>b. board_id b = k) bs)"
proof (induction bs arbitrary: seen)
  case Nil
  show ?case by simp
next
  case (Cons b bs)
  show ?case using Cons.IH[of seen] Cons.IH[of "insert (board_id b) seen"] by auto
qed

lemma distinct_key_count:
  "distinct (map f xs) \<Longrightarrow> length (filter (\<lambda>x. f x = k) xs) = (if k \<in> f ` set xs then 1 else 0)"
  by (induction xs) auto

text \<open>
  Claim C4. \<^verbatim>\<open>discover_boards\<close> returns a list whose board IDs are pairwise
  distinct. The list is a subsequence of the boards the in-scope endpoints reported, in
  enumeration order; for every board ID, the first board with that ID in the result is
  the first one reported with it, and the result holds exactly one board for an ID that
  was reported (by one endpoint or by several) and none for any other.
\<close>

theorem discover_boards_unique:
  "\<exists>bs. snd (discover_boards ports_all) = Inr bs
      \<and> distinct (map board_id bs)
      \<and> subseq bs (reported ports_all)
      \<and> (\<forall>k. find (\<lambda>b. board_id b = k) bs = find (\<lambda>b. board_id b = k) (reported ports_all))
      \<and> (\<forall>k. length (filter (\<lambda>b. board_id b = k) bs)
               = (if k \<in> board_id ` set (reported ports_all) then 1 else 0))"
proof -
  let ?bs = "dedupe {} (reported ports_all)"
  have d: "distinct (map board_id ?bs)" by (rule dedupe_distinct)
  have ids: "board_id ` set ?bs = board_id ` set (reported ports_all)"
    using dedupe_ids[of "{}" "reported ports_all"] by simp
  have one: "length (filter (\<lambda>b. board_id b = k) ?bs)
               = (if k \<in> board_id ` set (reported ports_all) then 1 else 0)" for k
    using distinct_key_count[OF d, of k] by (simp only: ids)
  have first: "find (\<lambda>b. board_id b = k) ?bs = find (\<lambda>b. board_id b = k) (reported ports_all)" for k
    by (simp add: dedupe_first)
  show ?thesis
    using discover_boards_result[of ports_all] d dedupe_subseq[of "{}" "reported ports_all"] one first
    by blast
qed

theorem discover_boards_unique_witness:
  "snd (discover_boards [(usb_endpoint ''E1'', answering [''ID B1 FW 1.2 CAPS wave,row0'']),
                         (bluetooth_endpoint ''E2'', answering [''ID B9 FW 1.2 CAPS wave,row0'']),
                         (usb_endpoint ''E3'', answering [''HELLO'', ''ID B1 FW 1.2 CAPS wave,row0'']),
                         (usb_endpoint ''E4'', answering [''ID B2 FW 1.2 CAPS wave,row0''])])
     = Inr [board_at ''E1'' ''B1'', board_at ''E4'' ''B2'']
   \<and> reported [(usb_endpoint ''E1'', answering [''ID B1 FW 1.2 CAPS wave,row0'']),
                (bluetooth_endpoint ''E2'', answering [''ID B9 FW 1.2 CAPS wave,row0'']),
                (usb_endpoint ''E3'', answering [''HELLO'', ''ID B1 FW 1.2 CAPS wave,row0'']),
                (usb_endpoint ''E4'', answering [''ID B2 FW 1.2 CAPS wave,row0''])]
     = [board_at ''E1'' ''B1'', board_at ''E3'' ''B1'', board_at ''E4'' ''B2'']
   \<and> distinct (map board_id [board_at ''E1'' ''B1'', board_at ''E4'' ''B2''])
   \<and> subseq [board_at ''E1'' ''B1'', board_at ''E4'' ''B2'']
         [board_at ''E1'' ''B1'', board_at ''E3'' ''B1'', board_at ''E4'' ''B2'']
   \<and> find (\<lambda>b. board_id b = ''B1'') [board_at ''E1'' ''B1'', board_at ''E4'' ''B2'']
       = find (\<lambda>b. board_id b = ''B1'')
           [board_at ''E1'' ''B1'', board_at ''E3'' ''B1'', board_at ''E4'' ''B2'']"
proof -
  let ?w = "[(usb_endpoint ''E1'', answering [''ID B1 FW 1.2 CAPS wave,row0'']),
             (bluetooth_endpoint ''E2'', answering [''ID B9 FW 1.2 CAPS wave,row0'']),
             (usb_endpoint ''E3'', answering [''HELLO'', ''ID B1 FW 1.2 CAPS wave,row0'']),
             (usb_endpoint ''E4'', answering [''ID B2 FW 1.2 CAPS wave,row0''])]"
  have r: "snd (discover_boards ?w) = Inr [board_at ''E1'' ''B1'', board_at ''E4'' ''B2'']"
    by code_simp
  have f: "reported ?w = [board_at ''E1'' ''B1'', board_at ''E3'' ''B1'', board_at ''E4'' ''B2'']"
    by code_simp
  obtain bs where bs: "snd (discover_boards ?w) = Inr bs" "distinct (map board_id bs)"
      "subseq bs (reported ?w)"
      "\<forall>k. find (\<lambda>b. board_id b = k) bs = find (\<lambda>b. board_id b = k) (reported ?w)"
    using discover_boards_unique[of ?w] by blast
  have e: "bs = [board_at ''E1'' ''B1'', board_at ''E4'' ''B2'']" using bs(1) r by simp
  show ?thesis using bs(2,3,4) r f unfolding e by (simp only: simp_thms)
qed

lemma found_by_skipped:
  "open_error s \<noteq> None \<or> write_error s \<noteq> None \<Longrightarrow> found_by p s = None"
  by (auto simp: found_by_def scan_port_snd query_port_def Let_def split: option.splits)

lemma reported_skip:
  "found_by p s = None \<Longrightarrow> reported (before @ (p, s) # after) = reported (before @ after)"
  by (simp add: reported_def List.map_filter_def)

text \<open>
  Claim C5. \<^verbatim>\<open>discover_boards\<close> always returns a board list, whatever the transports
  do (no exception leaves it). An endpoint whose open fails, or whose write raises (a
  timeout or any other error), yields no board, and the result is the one obtained with
  that endpoint left out of the enumeration.
\<close>

theorem discover_boards_resilient:
  "(\<exists>bs. snd (discover_boards ports_all) = Inr bs)
   \<and> (open_error s \<noteq> None \<or> write_error s \<noteq> None \<longrightarrow>
        snd (scan_port i p s) = Inr None
        \<and> snd (discover_boards (before @ (p, s) # after)) = snd (discover_boards (before @ after)))"
proof -
  have "snd (scan_port i p s) = Inr None
        \<and> snd (discover_boards (before @ (p, s) # after)) = snd (discover_boards (before @ after))"
    if "open_error s \<noteq> None \<or> write_error s \<noteq> None"
  proof -
    have n: "found_by p s = None" using that by (rule found_by_skipped)
    show ?thesis
      by (simp only: scan_port_result discover_boards_result reported_skip[OF n] n)
  qed
  then show ?thesis using discover_boards_result[of ports_all] by blast
qed

theorem discover_boards_resilient_witness:
  "snd (discover_boards
         ([(usb_endpoint ''E1'', answering [''ID B1 FW 1.2 CAPS wave,row0''])]
          @ (usb_endpoint ''E2'',
             (answering [''ID B2 FW 1.2 CAPS wave,row0''])\<lparr>write_error := Some SerialTimeoutException\<rparr>)
          # [(usb_endpoint ''E3'', answering [''ID B3 FW 1.2 CAPS wave,row0''])]))
     = Inr [board_at ''E1'' ''B1'', board_at ''E3'' ''B3'']"
proof -
  let ?s = "(answering [''ID B2 FW 1.2 CAPS wave,row0''])\<lparr>write_error := Some SerialTimeoutException\<rparr>"
  let ?before = "[(usb_endpoint ''E1'', answering [''ID B1 FW 1.2 CAPS wave,row0''])]"
  let ?after = "[(usb_endpoint ''E3'', answering [''ID B3 FW 1.2 CAPS wave,row0''])]"
  have h: "open_error ?s \<noteq> None \<or> write_error ?s \<noteq> None" by simp
  have "snd (discover_boards (?before @ (usb_endpoint ''E2'', ?s) # ?after))
          = snd (discover_boards (?before @ ?after))"
    using discover_boards_resilient[of "[]" ?s 0 "usb_endpoint ''E2''" ?before ?after] h by blast
  also have "\<dots> = Inr [board_at ''E1'' ''B1'', board_at ''E3'' ''B3'']" by code_simp
  finally show ?thesis .
qed

section \<open>Properties of the broadcast coordinator\<close>

lemma map_of_dict_set: "map_of (dict_set d k v) = (map_of d)(k \<mapsto> v)"
  by (induction d) (auto simp: fun_eq_iff)

lemma keys_dict_set: "fst ` set (dict_set d k v) = insert k (fst ` set d)"
proof (induction d)
  case Nil
  show ?case by simp
next
  case (Cons x d)
  obtain k' v' where x: "x = (k', v')" by (cases x)
  show ?case
  proof (cases "k' = k")
    case True
    then show ?thesis by (simp add: x)
  next
    case False
    then show ?thesis using Cons.IH by (simp add: x insert_commute)
  qed
qed

lemma distinct_dict_set: "distinct (map fst d) \<Longrightarrow> distinct (map fst (dict_set d k v))"
proof (induction d)
  case Nil
  show ?case by simp
next
  case (Cons x d)
  obtain k' v' where x: "x = (k', v')" by (cases x)
  show ?case
  proof (cases "k' = k")
    case True
    then show ?thesis using Cons.prems by (simp add: x)
  next
    case False
    then show ?thesis using Cons by (simp add: x keys_dict_set)
  qed
qed

lemma open_ports_snd_Cons:
  "snd (open_ports ((i, b, s) # xs) d)
     = snd (open_ports xs
              (case open_error s of
                 None \<Rightarrow> dict_set d (board_id b) \<lparr>ser_id = i, ser_port = port b, ser_script = s\<rparr>
               | Some e \<Rightarrow> d))"
  by (simp split: option.splits prod.splits)

lemma open_ports_distinct:
  "distinct (map fst d) \<Longrightarrow> distinct (map fst (snd (open_ports xs d)))"
proof (induction xs arbitrary: d)
  case Nil
  then show ?case by simp
next
  case (Cons x xs)
  obtain i b s where x: "x = (i, b, s)" by (cases x)
  have "distinct (map fst (case open_error s of
                 None \<Rightarrow> dict_set d (board_id b) \<lparr>ser_id = i, ser_port = port b, ser_script = s\<rparr>
               | Some e \<Rightarrow> d))"
    using Cons.prems by (simp add: distinct_dict_set split: option.splits)
  then show ?case unfolding x open_ports_snd_Cons by (rule Cons.IH)
qed

lemma open_ports_lookup:
  "map_of (snd (open_ports xs d)) k
     = (case last_open xs k of Some v \<Rightarrow> Some v | None \<Rightarrow> map_of d k)"
proof (induction xs arbitrary: d)
  case Nil
  show ?case by simp
next
  case (Cons x xs)
  obtain i b s where x: "x = (i, b, s)" by (cases x)
  show ?case unfolding x open_ports_snd_Cons Cons.IH
    by (simp add: map_of_dict_set split: option.splits)
qed

lemma in_sers_iff:
  "(k, v) \<in> set (snd (open_ports xs [])) \<longleftrightarrow> last_open xs k = Some v"
proof -
  have "distinct (map fst (snd (open_ports xs [])))" by (rule open_ports_distinct) simp
  then have "(k, v) \<in> set (snd (open_ports xs [])) \<longleftrightarrow> map_of (snd (open_ports xs [])) k = Some v"
    by simp
  then show ?thesis by (simp add: open_ports_lookup split: option.splits)
qed

lemma last_open_snoc:
  "last_open (xs @ [(i, b, s)]) k
     = (if open_error s = None \<and> board_id b = k
        then Some \<lparr>ser_id = i, ser_port = port b, ser_script = s\<rparr>
        else last_open xs k)"
  by (induction xs) (auto split: option.splits)

lemma retained_at_snoc:
  "retained_at (bs @ [x]) i \<longleftrightarrow>
     (if i = length bs then open_error (snd x) = None
      else retained_at bs i
           \<and> \<not> (open_error (snd x) = None \<and> board_id (fst x) = board_id (fst (bs ! i))))"
proof (cases "i < length bs")
  case True
  have s: "{i<..<Suc (length bs)} = insert (length bs) {i<..<length bs}"
    using True by auto
  show ?thesis using True by (auto simp: retained_at_def nth_append s)
next
  case False
  then show ?thesis by (auto simp: retained_at_def nth_append)
qed

lemma retained_at_less: "retained_at bs i \<Longrightarrow> i < length bs"
  by (simp add: retained_at_def)

lemma last_open_enumerate:
  "last_open (enumerate 0 bs) k = Some v \<longleftrightarrow>
     (\<exists>i. retained_at bs i \<and> board_id (fst (bs ! i)) = k
          \<and> v = \<lparr>ser_id = i, ser_port = port (fst (bs ! i)), ser_script = snd (bs ! i)\<rparr>)"
proof (induction bs rule: rev_induct)
  case Nil
  show ?case by (simp add: retained_at_def)
next
  case (snoc x bs)
  obtain b s where x: "x = (b, s)" by (cases x)
  have e: "enumerate 0 (bs @ [x]) = enumerate 0 bs @ [(length bs, b, s)]"
    by (simp add: enumerate_append_eq x)
  let ?R = "\<lambda>i. retained_at (bs @ [x]) i \<and> board_id (fst ((bs @ [x]) ! i)) = k
          \<and> v = \<lparr>ser_id = i, ser_port = port (fst ((bs @ [x]) ! i)),
                  ser_script = snd ((bs @ [x]) ! i)\<rparr>"
  show ?case
  proof (cases "open_error s = None \<and> board_id b = k")
    case True
    have l: "last_open (enumerate 0 (bs @ [x])) k
               = Some \<lparr>ser_id = length bs, ser_port = port b, ser_script = s\<rparr>"
      using True by (simp add: e last_open_snoc)
    have only: "i = length bs" if "retained_at (bs @ [x]) i"
      and "board_id (fst ((bs @ [x]) ! i)) = k" for i
    proof (rule ccontr)
      assume n: "i \<noteq> length bs"
      with that(1) have r: "retained_at bs i"
        and d: "\<not> (open_error s = None \<and> board_id b = board_id (fst (bs ! i)))"
        by (simp_all add: retained_at_snoc x)
      have "(bs @ [x]) ! i = bs ! i" using retained_at_less[OF r] by (simp add: nth_append)
      with that(2) d True show False by simp
    qed
    have here: "retained_at (bs @ [x]) (length bs)"
      using True by (simp add: retained_at_snoc x)
    have nth: "(bs @ [x]) ! length bs = (b, s)" by (simp add: x)
    show ?thesis
    proof
      assume "last_open (enumerate 0 (bs @ [x])) k = Some v"
      then have "v = \<lparr>ser_id = length bs, ser_port = port b, ser_script = s\<rparr>"
        using l by simp
      then have "?R (length bs)" using here True by (simp add: x)
      then show "\<exists>i. ?R i" ..
    next
      assume "\<exists>i. ?R i"
      then obtain i where i: "?R i" ..
      then have "i = length bs" using only by blast
      then show "last_open (enumerate 0 (bs @ [x])) k = Some v"
        using i l by (simp add: x)
    qed
  next
    case False
    have l: "last_open (enumerate 0 (bs @ [x])) k = last_open (enumerate 0 bs) k"
      using False by (auto simp: e last_open_snoc)
    have same: "?R i \<longleftrightarrow> retained_at bs i \<and> board_id (fst (bs ! i)) = k
          \<and> v = \<lparr>ser_id = i, ser_port = port (fst (bs ! i)), ser_script = snd (bs ! i)\<rparr>" for i
    proof (cases "i < length bs")
      case True
      then show ?thesis using False by (auto simp: retained_at_snoc x nth_append)
    next
      case False
      note out = this
      show ?thesis
      proof (cases "i = length bs")
        case True
        then show ?thesis using \<open>\<not> (open_error s = None \<and> board_id b = k)\<close>
          by (auto simp: retained_at_snoc x retained_at_def)
      next
        case False
        then show ?thesis using out by (auto simp: retained_at_def)
      qed
    qed
    show ?thesis unfolding l snoc.IH using same by blast
  qed
qed

lemma distinct_singleton: "distinct xs \<Longrightarrow> set xs = {x} \<Longrightarrow> xs = [x]"
proof (cases xs)
  case Nil
  assume "set xs = {x}"
  with Nil show ?thesis by simp
next
  case (Cons a ys)
  assume d: "distinct xs" and s: "set xs = {x}"
  from s Cons have a: "a = x" by auto
  from d s Cons a have "set ys \<subseteq> {x}" and "x \<notin> set ys" by auto
  then have "ys = []" by (cases ys) auto
  with Cons a show ?thesis by simp
qed

lemma held_by_table:
  "filter (\<lambda>(k, v). ser_id v = i) (snd (open_ports (enumerate 0 bs) []))
     = (if retained_at bs i
        then [(board_id (fst (bs ! i)),
               \<lparr>ser_id = i, ser_port = port (fst (bs ! i)), ser_script = snd (bs ! i)\<rparr>)]
        else [])"
proof -
  let ?sers = "snd (open_ports (enumerate 0 bs) [])"
  let ?mine = "filter (\<lambda>(k, v). ser_id v = i) ?sers"
  let ?e = "(board_id (fst (bs ! i)),
               \<lparr>ser_id = i, ser_port = port (fst (bs ! i)), ser_script = snd (bs ! i)\<rparr>)"
  have "distinct (map fst ?sers)" by (rule open_ports_distinct) simp
  then have d: "distinct ?mine" by (simp add: distinct_map)
  have m: "(k, v) \<in> set ?mine \<longleftrightarrow> retained_at bs i \<and> (k, v) = ?e" for k v
    by (auto simp: in_sers_iff last_open_enumerate)
  show ?thesis
  proof (cases "retained_at bs i")
    case True
    have "set ?mine = {?e}" using m True by auto
    with d have "?mine = [?e]" by (rule distinct_singleton)
    then show ?thesis using True by simp
  next
    case False
    have "set ?mine = {}" using m False by auto
    then have "?mine = []" by (simp only: set_empty)
    then show ?thesis using False by simp
  qed
qed

lemma calls_on_append: "calls_on i (xs @ ys) = calls_on i xs @ calls_on i ys"
  by (simp add: calls_on_def)

lemma calls_on_concat:
  "calls_on i (concat (map f xs)) = concat (map (\<lambda>x. calls_on i (f x)) xs)"
  by (induction xs) (simp_all add: calls_on_def)

lemma concat_map_if:
  "concat (map (\<lambda>x. if P x then g x else []) xs) = concat (map g (filter P xs))"
  by (induction xs) simp_all

lemma calls_on_phase:
  assumes "\<And>k v. calls_on i (f (k, v)) = (if ser_id v = i then g (k, v) else [])"
  shows "calls_on i (concat (map f sers)) = concat (map g (filter (\<lambda>(k, v). ser_id v = i) sers))"
proof -
  have "(\<lambda>x. calls_on i (f x)) = (\<lambda>x. if (\<lambda>(k, v). ser_id v = i) x then g x else [])"
    using assms by (auto simp: fun_eq_iff)
  then show ?thesis by (simp only: calls_on_concat concat_map_if)
qed

lemma calls_on_write:
  "calls_on i (write_payload payload (k, v))
     = (if ser_id v = i then [ResetInputBuffer i, Write i payload] else [])"
  by (auto simp: write_payload_def calls_on_def split: option.splits)

lemma calls_on_flush: "calls_on i (flush_port (k, v)) = (if ser_id v = i then [Flush i] else [])"
  by (simp add: flush_port_def calls_on_def)

lemma calls_on_read: "calls_on i (read_ack (k, v)) = (if ser_id v = i then [ReadLinesFor i] else [])"
  by (simp add: read_ack_def calls_on_def Let_def)

lemma calls_on_close: "calls_on i (close_port (k, v)) = (if ser_id v = i then [Close i] else [])"
  by (simp add: close_port_def calls_on_def)

lemma open_ports_fst_Cons:
  "fst (open_ports ((i, b, s) # xs) d)
     = (case open_error s of
          None \<Rightarrow> OpenPort i # displaced d (board_id b)
        | Some e \<Rightarrow> [OpenFailed i, Print (WarnCouldNotOpen (board_id b) (port b) e)])
       @ fst (open_ports xs
                (case open_error s of
                   None \<Rightarrow> dict_set d (board_id b) \<lparr>ser_id = i, ser_port = port b, ser_script = s\<rparr>
                 | Some e \<Rightarrow> d))"
  by (simp split: option.splits prod.splits)

lemma open_ports_snd_append:
  "snd (open_ports (xs @ ys) d) = snd (open_ports ys (snd (open_ports xs d)))"
proof (induction xs arbitrary: d)
  case Nil
  show ?case by simp
next
  case (Cons x xs)
  obtain i b s where x: "x = (i, b, s)" by (cases x)
  show ?case unfolding x append_Cons open_ports_snd_Cons Cons.IH ..
qed

lemma open_ports_fst_append:
  "fst (open_ports (xs @ ys) d)
     = fst (open_ports xs d) @ fst (open_ports ys (snd (open_ports xs d)))"
proof (induction xs arbitrary: d)
  case Nil
  show ?case by simp
next
  case (Cons x xs)
  obtain i b s where x: "x = (i, b, s)" by (cases x)
  show ?case unfolding x append_Cons open_ports_fst_Cons open_ports_snd_Cons Cons.IH by simp
qed

lemma table_lookup:
  "map_of (snd (open_ports (enumerate 0 bs) [])) k = last_open (enumerate 0 bs) k"
  by (simp add: open_ports_lookup split: option.splits)

lemma displaced_calls:
  "calls_on i (displaced (snd (open_ports (enumerate 0 bs) [])) k)
     = (if retained_at bs i \<and> board_id (fst (bs ! i)) = k then [Close i] else [])"
proof (cases "last_open (enumerate 0 bs) k")
  case None
  have "\<not> (retained_at bs i \<and> board_id (fst (bs ! i)) = k)"
  proof
    assume "retained_at bs i \<and> board_id (fst (bs ! i)) = k"
    then have "last_open (enumerate 0 bs) k
                 = Some \<lparr>ser_id = i, ser_port = port (fst (bs ! i)), ser_script = snd (bs ! i)\<rparr>"
      unfolding last_open_enumerate by blast
    with None show False by simp
  qed
  then show ?thesis by (simp add: displaced_def table_lookup None calls_on_def)
next
  case (Some v)
  then obtain i' where i': "retained_at bs i'" "board_id (fst (bs ! i')) = k"
      "v = \<lparr>ser_id = i', ser_port = port (fst (bs ! i')), ser_script = snd (bs ! i')\<rparr>"
    unfolding last_open_enumerate by blast
  have "retained_at bs i \<and> board_id (fst (bs ! i)) = k \<longleftrightarrow> i = i'"
  proof
    assume "retained_at bs i \<and> board_id (fst (bs ! i)) = k"
    then have "last_open (enumerate 0 bs) k
                 = Some \<lparr>ser_id = i, ser_port = port (fst (bs ! i)), ser_script = snd (bs ! i)\<rparr>"
      unfolding last_open_enumerate by blast
    with Some i'(3) show "i = i'" by simp
  next
    assume "i = i'"
    with i' show "retained_at bs i \<and> board_id (fst (bs ! i)) = k" by simp
  qed
  then show ?thesis by (auto simp: displaced_def table_lookup Some calls_on_def i'(3))
qed

lemma open_step:
  "fst (open_ports (enumerate 0 (bs @ [(b, s)])) [])
     = fst (open_ports (enumerate 0 bs) [])
       @ (case open_error s of
            None \<Rightarrow> OpenPort (length bs)
                     # displaced (snd (open_ports (enumerate 0 bs) [])) (board_id b)
          | Some e \<Rightarrow> [OpenFailed (length bs),
                        Print (WarnCouldNotOpen (board_id b) (port b) e)])"
  by (simp add: enumerate_append_eq open_ports_fst_append open_ports_fst_Cons
           del: open_ports.simps(2))

lemma open_calls:
  "calls_on i (fst (open_ports (enumerate 0 bs) []))
     = (if i < length bs \<and> open_error (snd (bs ! i)) = None \<and> \<not> retained_at bs i
        then [Close i] else [])"
proof (induction bs rule: rev_induct)
  case Nil
  show ?case by (simp add: calls_on_def)
next
  case (snoc x bs)
  obtain b s where x: "x = (b, s)" by (cases x)
  have step: "calls_on i (case open_error s of
            None \<Rightarrow> OpenPort (length bs)
                     # displaced (snd (open_ports (enumerate 0 bs) [])) (board_id b)
          | Some e \<Rightarrow> [OpenFailed (length bs),
                        Print (WarnCouldNotOpen (board_id b) (port b) e)])
        = (if open_error s = None \<and> retained_at bs i \<and> board_id (fst (bs ! i)) = board_id b
           then [Close i] else [])"
  proof (cases "open_error s")
    case None
    have "calls_on i (OpenPort (length bs)
                     # displaced (snd (open_ports (enumerate 0 bs) [])) (board_id b))
            = calls_on i (displaced (snd (open_ports (enumerate 0 bs) [])) (board_id b))"
      by (simp add: calls_on_def)
    then show ?thesis by (simp add: None displaced_calls)
  next
    case (Some e)
    then show ?thesis by (simp add: calls_on_def)
  qed
  consider "i < length bs" | "i = length bs" | "length bs < i" by linarith
  then show ?case
  proof cases
    case 1
    then have n: "(bs @ [x]) ! i = bs ! i" by (simp add: nth_append)
    have r: "retained_at (bs @ [x]) i \<longleftrightarrow>
               retained_at bs i
               \<and> \<not> (open_error s = None \<and> board_id b = board_id (fst (bs ! i)))"
      using 1 by (simp add: retained_at_snoc x)
    have o: "retained_at bs i \<Longrightarrow> open_error (snd (bs ! i)) = None"
      by (simp add: retained_at_def)
    show ?thesis
      unfolding x open_step calls_on_append snoc.IH step
      using 1 r o by (auto simp: n x nth_append)
  next
    case 2
    have a: "\<not> retained_at bs i" using 2 by (simp add: retained_at_def)
    have r: "retained_at (bs @ [x]) i \<longleftrightarrow> open_error s = None"
      using 2 by (simp add: retained_at_snoc x)
    show ?thesis
      unfolding x open_step calls_on_append snoc.IH step
      using 2 a r by (auto simp: x)
  next
    case 3
    have a: "\<not> retained_at bs i" using 3 by (simp add: retained_at_def)
    show ?thesis
      unfolding x open_step calls_on_append snoc.IH step
      using 3 a by auto
  qed
qed

lemma displaced_events:
  "OpenPort j \<notin> set (displaced d k)" "Print m \<notin> set (displaced d k)"
  by (simp_all add: displaced_def split: option.splits)

lemma open_count:
  "count_list (fst (open_ports (enumerate 0 bs) [])) (OpenPort i)
     = (if i < length bs \<and> open_error (snd (bs ! i)) = None then 1 else 0)"
proof (induction bs rule: rev_induct)
  case Nil
  show ?case by simp
next
  case (snoc x bs)
  obtain b s where x: "x = (b, s)" by (cases x)
  have d: "count_list (displaced d k) (OpenPort j) = 0" for d k j
    using displaced_events(1)[of j d k] by (simp add: count_list_0_iff)
  have step: "count_list (case open_error s of
            None \<Rightarrow> OpenPort (length bs)
                     # displaced (snd (open_ports (enumerate 0 bs) [])) (board_id b)
          | Some e \<Rightarrow> [OpenFailed (length bs),
                        Print (WarnCouldNotOpen (board_id b) (port b) e)]) (OpenPort i)
        = (if open_error s = None \<and> i = length bs then 1 else 0)"
    by (cases "open_error s") (auto simp: d)
  show ?case
    unfolding x open_step count_list_append snoc.IH step
    by (auto simp: nth_append)
qed

lemma open_warns:
  "Print (WarnCouldNotOpen k p e) \<in> set (fst (open_ports xs d))
     \<longleftrightarrow> (\<exists>i b s. (i, b, s) \<in> set xs \<and> open_error s = Some e \<and> k = board_id b \<and> p = port b)"
proof (induction xs arbitrary: d)
  case Nil
  show ?case by simp
next
  case (Cons x xs)
  obtain i b s where x: "x = (i, b, s)" by (cases x)
  show ?case
    unfolding x open_ports_fst_Cons
    by (cases "open_error s") (auto simp: Cons.IH displaced_events)
qed

lemma open_no_ack: "Print (AckTrace k ls) \<notin> set (fst (open_ports xs d))"
proof (induction xs arbitrary: d)
  case Nil
  show ?case by simp
next
  case (Cons x xs)
  obtain i b s where x: "x = (i, b, s)" by (cases x)
  show ?case
    unfolding x open_ports_fst_Cons
    by (cases "open_error s") (auto simp: Cons.IH displaced_events)
qed

lemma broadcast_command_eq:
  "broadcast_command bs cmd =
     fst (open_ports (enumerate 0 bs) []) @
     (if snd (open_ports (enumerate 0 bs) []) = [] then [Print NoPortsOpened]
      else concat (map (write_payload (framed cmd)) (snd (open_ports (enumerate 0 bs) [])))
           @ concat (map flush_port (snd (open_ports (enumerate 0 bs) [])))
           @ concat (map read_ack (snd (open_ports (enumerate 0 bs) [])))
           @ concat (map close_port (snd (open_ports (enumerate 0 bs) []))))"
  by (simp add: broadcast_command_def framed_def Let_def split: prod.splits)

lemma after_open_calls:
  "calls_on i
     (if snd (open_ports (enumerate 0 bs) []) = [] then [Print NoPortsOpened]
      else concat (map (write_payload (framed cmd)) (snd (open_ports (enumerate 0 bs) [])))
           @ concat (map flush_port (snd (open_ports (enumerate 0 bs) [])))
           @ concat (map read_ack (snd (open_ports (enumerate 0 bs) [])))
           @ concat (map close_port (snd (open_ports (enumerate 0 bs) []))))
     = (if retained_at bs i
        then [ResetInputBuffer i, Write i (framed cmd), Flush i, ReadLinesFor i, Close i]
        else [])"
proof -
  let ?sers = "snd (open_ports (enumerate 0 bs) [])"
  let ?mine = "filter (\<lambda>(k, v). ser_id v = i) ?sers"
  have w: "calls_on i (concat (map (write_payload (framed cmd)) ?sers))
             = concat (map (\<lambda>(k, v). [ResetInputBuffer i, Write i (framed cmd)]) ?mine)"
    by (rule calls_on_phase) (simp add: calls_on_write)
  have f: "calls_on i (concat (map flush_port ?sers)) = concat (map (\<lambda>(k, v). [Flush i]) ?mine)"
    by (rule calls_on_phase) (simp add: calls_on_flush)
  have r: "calls_on i (concat (map read_ack ?sers)) = concat (map (\<lambda>(k, v). [ReadLinesFor i]) ?mine)"
    by (rule calls_on_phase) (simp add: calls_on_read)
  have c: "calls_on i (concat (map close_port ?sers)) = concat (map (\<lambda>(k, v). [Close i]) ?mine)"
    by (rule calls_on_phase) (simp add: calls_on_close)
  have n: "calls_on i [Print NoPortsOpened] = []" by (simp add: calls_on_def)
  show ?thesis
  proof (cases "retained_at bs i")
    case True
    then have m: "?mine = [(board_id (fst (bs ! i)),
               \<lparr>ser_id = i, ser_port = port (fst (bs ! i)), ser_script = snd (bs ! i)\<rparr>)]"
      by (simp only: held_by_table if_True)
    then have ne: "?sers \<noteq> []" by auto
    have "calls_on i
     (if ?sers = [] then [Print NoPortsOpened]
      else concat (map (write_payload (framed cmd)) ?sers) @ concat (map flush_port ?sers)
           @ concat (map read_ack ?sers) @ concat (map close_port ?sers))
            = [ResetInputBuffer i, Write i (framed cmd)] @ [Flush i] @ [ReadLinesFor i] @ [Close i]"
      by (simp only: ne if_False calls_on_append w f r c m list.map concat.simps prod.case
                     append_Nil append_Nil2)
    then show ?thesis using True by simp
  next
    case False
    then have m: "?mine = []" by (simp only: held_by_table if_False)
    have "calls_on i
     (if ?sers = [] then [Print NoPortsOpened]
      else concat (map (write_payload (framed cmd)) ?sers) @ concat (map flush_port ?sers)
           @ concat (map read_ack ?sers) @ concat (map close_port ?sers)) = []"
    proof (cases "?sers = []")
      case True
      then show "calls_on i
        (if ?sers = [] then [Print NoPortsOpened]
         else concat (map (write_payload (framed cmd)) ?sers) @ concat (map flush_port ?sers)
              @ concat (map read_ack ?sers) @ concat (map close_port ?sers)) = []"
        by (simp add: n)
    next
      case False
      then show "calls_on i
        (if ?sers = [] then [Print NoPortsOpened]
         else concat (map (write_payload (framed cmd)) ?sers) @ concat (map flush_port ?sers)
              @ concat (map read_ack ?sers) @ concat (map close_port ?sers)) = []"
        by (simp only: if_False calls_on_append w f r c m list.map concat.simps append_Nil)
    qed
    then show ?thesis using False by simp
  qed
qed

lemma retained_at_open: "retained_at bs i \<Longrightarrow> open_error (snd (bs ! i)) = None"
  by (simp add: retained_at_def)

lemma broadcast_calls:
  "calls_on i (broadcast_command bs cmd)
     = (if retained_at bs i
        then [ResetInputBuffer i, Write i (framed cmd), Flush i, ReadLinesFor i, Close i]
        else if i < length bs \<and> open_error (snd (bs ! i)) = None then [Close i]
        else [])"
  unfolding broadcast_command_eq calls_on_append open_calls after_open_calls
  using retained_at_open[of bs i] retained_at_less[of bs i] by auto

lemma writes_to_calls: "writes_to i tr = writes_to i (calls_on i tr)"
proof (induction tr)
  case Nil
  show ?case by (simp add: writes_to_def calls_on_def)
next
  case (Cons e tr)
  then show ?case by (cases e) (auto simp: writes_to_def calls_on_def List.map_filter_simps)
qed

lemma broadcast_writes:
  "writes_to i (broadcast_command bs cmd) = (if retained_at bs i then [framed cmd] else [])"
proof -
  have "writes_to i (broadcast_command bs cmd) = writes_to i (calls_on i (broadcast_command bs cmd))"
    by (rule writes_to_calls)
  then show ?thesis by (simp add: broadcast_calls writes_to_def List.map_filter_simps)
qed

lemma in_calls_on: "e \<in> set (calls_on i tr) \<longleftrightarrow> e \<in> set tr \<and> uses_port i e"
  by (simp add: calls_on_def)

lemma broadcast_closes:
  "Close i \<in> set (broadcast_command bs cmd)
     \<longleftrightarrow> i < length bs \<and> open_error (snd (bs ! i)) = None"
proof -
  have "Close i \<in> set (broadcast_command bs cmd)
          \<longleftrightarrow> Close i \<in> set (calls_on i (broadcast_command bs cmd))"
    by (simp add: in_calls_on)
  then show ?thesis
    using retained_at_open[of bs i] retained_at_less[of bs i] by (auto simp: broadcast_calls)
qed

lemma print_not_in_phases:
  "OpenPort i \<notin> set (concat (map (write_payload pl) sers))"
  "OpenPort i \<notin> set (concat (map flush_port sers))"
  "OpenPort i \<notin> set (concat (map read_ack sers))"
  "OpenPort i \<notin> set (concat (map close_port sers))"
  by (auto simp: write_payload_def flush_port_def read_ack_def close_port_def Let_def
           split: option.splits if_splits)

lemma broadcast_open_count:
  "count_list (broadcast_command bs cmd) (OpenPort i)
     = (if i < length bs \<and> open_error (snd (bs ! i)) = None then 1 else 0)"
proof -
  let ?sers = "snd (open_ports (enumerate 0 bs) [])"
  have "OpenPort i \<notin> set
     (if ?sers = [] then [Print NoPortsOpened]
      else concat (map (write_payload (framed cmd)) ?sers) @ concat (map flush_port ?sers)
           @ concat (map read_ack ?sers) @ concat (map close_port ?sers))"
    using print_not_in_phases[of i] by auto
  then have "count_list
     (if ?sers = [] then [Print NoPortsOpened]
      else concat (map (write_payload (framed cmd)) ?sers) @ concat (map flush_port ?sers)
           @ concat (map read_ack ?sers) @ concat (map close_port ?sers)) (OpenPort i) = 0"
    by (simp only: count_list_0_iff simp_thms)
  then show ?thesis
    unfolding broadcast_command_eq count_list_append open_count by simp
qed

lemma broadcast_opens:
  "OpenPort i \<in> set (broadcast_command bs cmd)
     \<longleftrightarrow> i < length bs \<and> open_error (snd (bs ! i)) = None"
proof -
  have "OpenPort i \<in> set (broadcast_command bs cmd)
          \<longleftrightarrow> count_list (broadcast_command bs cmd) (OpenPort i) \<noteq> 0"
    by (simp only: count_list_0_iff simp_thms)
  then show ?thesis by (simp add: broadcast_open_count)
qed

lemma broadcast_warns:
  assumes "i < length bs" and "open_error (snd (bs ! i)) = Some e"
  shows "Print (WarnCouldNotOpen (board_id (fst (bs ! i))) (port (fst (bs ! i))) e)
           \<in> set (broadcast_command bs cmd)"
proof -
  have "(i, fst (bs ! i), snd (bs ! i)) \<in> set (enumerate 0 bs)"
    using assms(1) by (simp add: in_set_enumerate_eq)
  then have "Print (WarnCouldNotOpen (board_id (fst (bs ! i))) (port (fst (bs ! i))) e)
               \<in> set (fst (open_ports (enumerate 0 bs) []))"
    unfolding open_warns using assms(2) by blast
  then show ?thesis unfolding broadcast_command_eq by simp
qed



lemma ack_from_table:
  assumes "Print (AckTrace k ls) \<in> set (broadcast_command bs cmd)"
  shows "\<exists>v. (k, v) \<in> set (snd (open_ports (enumerate 0 bs) []))"
proof -
  let ?sers = "snd (open_ports (enumerate 0 bs) [])"
  have "Print (AckTrace k ls) \<in> set (concat (map read_ack ?sers))"
    using assms open_no_ack[of k ls "enumerate 0 bs" "[]"]
    unfolding broadcast_command_eq
    by (auto simp: write_payload_def flush_port_def close_port_def
             split: if_splits option.splits)
  then show ?thesis by (auto simp: read_ack_def Let_def split: if_splits)
qed

lemma retained_at_distinct:
  assumes "distinct (map (board_id \<circ> fst) bs)"
  shows "retained_at bs i \<longleftrightarrow> i < length bs \<and> open_error (snd (bs ! i)) = None"
proof -
  have "board_id (fst (bs ! j)) \<noteq> board_id (fst (bs ! i))"
    if "i < j" and "j < length bs" for j
  proof -
    have "(map (board_id \<circ> fst) bs ! j = map (board_id \<circ> fst) bs ! i) = (j = i)"
      using assms that by (intro nth_eq_iff_index_eq) auto
    then show ?thesis using that by simp
  qed
  then show ?thesis by (auto simp: retained_at_def)
qed

lemma encode_utf8_append: "encode_utf8 (a @ b) = encode_utf8 a @ encode_utf8 b"
  by (simp add: encode_utf8_def)

lemma framed_eq: "framed cmd = encode_utf8 (str_strip cmd) @ [0x0A]"
  by (simp add: framed_def encode_utf8_append) (simp add: encode_utf8_def encode_utf8_char_def)

lemma dropWhile_id: "xs = [] \<or> \<not> P (hd xs) \<Longrightarrow> dropWhile P xs = xs"
  by (cases xs) auto

lemma str_strip_id:
  assumes "cmd = [] \<or> (\<not> isspace (hd cmd) \<and> \<not> isspace (last cmd))"
  shows "str_strip cmd = cmd"
proof (cases "cmd = []")
  case True
  then show ?thesis by (simp add: str_strip_def)
next
  case False
  with assms have h: "\<not> isspace (hd cmd)" and l: "\<not> isspace (last cmd)" by auto
  have 1: "dropWhile isspace cmd = cmd" using h by (simp add: dropWhile_id)
  have "hd (rev cmd) = last cmd" using False by (simp add: hd_rev)
  then have 2: "dropWhile isspace (rev cmd) = rev cmd" using l by (simp add: dropWhile_id)
  show ?thesis by (simp add: str_strip_def 1 2)
qed

text \<open>
  What holds of an open failure on every board list: the warning is printed, and no call
  is made on the object that failed to open.
\<close>

lemma broadcast_open_failure:
  assumes "i < length bs" and "open_error (snd (bs ! i)) = Some e"
  shows "Print (WarnCouldNotOpen (board_id (fst (bs ! i))) (port (fst (bs ! i))) e)
           \<in> set (broadcast_command bs cmd)
         \<and> OpenPort i \<notin> set (broadcast_command bs cmd)
         \<and> calls_on i (broadcast_command bs cmd) = []"
  using assms broadcast_warns[OF assms, of cmd]
  by (simp add: broadcast_opens broadcast_calls retained_at_def)

text \<open>
  On a board list with pairwise distinct board IDs, every object that opened gets the
  five calls, in this order, and no other: in particular it is written once and closed.
\<close>

lemma broadcast_distinct_ids:
  assumes "distinct (map (board_id \<circ> fst) bs)" and "i < length bs"
    and "open_error (snd (bs ! i)) = None"
  shows "calls_on i (broadcast_command bs cmd)
           = [ResetInputBuffer i, Write i (framed cmd), Flush i, ReadLinesFor i, Close i]"
  using assms by (simp add: broadcast_calls retained_at_distinct)

text \<open>
  Claim C1, as stated, fails. \<^verbatim>\<open>broadcast_command\<close> strips the command before it frames
  it, so a command with a trailing blank is not sent as it is; and of two boards with
  one board ID whose transports both open, the first gets no payload.
\<close>

theorem broadcast_payload_counterexample:
  "writes_to 0 (broadcast_command [(board_at ''E1'' ''B1'', answering [])] ''sync stop 200 '')
     = [[115, 121, 110, 99, 32, 115, 116, 111, 112, 32, 50, 48, 48, 10]]
   \<and> encode_utf8 ''sync stop 200 '' @ [10]
     = [115, 121, 110, 99, 32, 115, 116, 111, 112, 32, 50, 48, 48, 32, 10]
   \<and> writes_to 0 (broadcast_command [(board_at ''E1'' ''B1'', answering [])] ''sync stop 200 '')
     \<noteq> [encode_utf8 ''sync stop 200 '' @ [10]]
   \<and> OpenPort 0 \<in> set (broadcast_command [(board_at ''E1'' ''B1'', answering []),
                                            (board_at ''E2'' ''B1'', answering [])]
                                           ''sync stop 200'')
   \<and> writes_to 0 (broadcast_command [(board_at ''E1'' ''B1'', answering []),
                                      (board_at ''E2'' ''B1'', answering [])]
                                     ''sync stop 200'') = []"
  by code_simp

text \<open>
  Claim C1, amended. For every command and every board list with pairwise distinct
  board IDs, \<^verbatim>\<open>broadcast_command\<close> writes exactly one payload to the transport of every
  board whose open succeeded: the UTF-8 encoding of the command with its leading and
  trailing whitespace stripped, followed by one newline. A command that neither starts
  nor ends with whitespace is sent as it is, and \<^verbatim>\<open>sync stop 200\<close> is sent as the
  bytes of \<^verbatim>\<open>sync stop 200\n\<close>.
\<close>

theorem broadcast_payload:
  "(distinct (map (board_id \<circ> fst) bs) \<and> i < length bs \<and> open_error (snd (bs ! i)) = None
      \<longrightarrow> writes_to i (broadcast_command bs cmd) = [encode_utf8 (str_strip cmd) @ [0x0A]])
   \<and> (cmd = [] \<or> (\<not> isspace (hd cmd) \<and> \<not> isspace (last cmd)) \<longrightarrow> str_strip cmd = cmd)
   \<and> encode_utf8 (str_strip ''sync stop 200'') @ [0x0A]
       = [115, 121, 110, 99, 32, 115, 116, 111, 112, 32, 50, 48, 48, 10]"
proof -
  have 1: "writes_to i (broadcast_command bs cmd) = [encode_utf8 (str_strip cmd) @ [0x0A]]"
    if "distinct (map (board_id \<circ> fst) bs)" and "i < length bs"
      and "open_error (snd (bs ! i)) = None"
    using that by (simp add: broadcast_writes retained_at_distinct framed_eq)
  have 2: "encode_utf8 (str_strip ''sync stop 200'') @ [0x0A]
       = [115, 121, 110, 99, 32, 115, 116, 111, 112, 32, 50, 48, 48, 10]"
    by code_simp
  show ?thesis using 1 2 str_strip_id[of cmd] by blast
qed

theorem broadcast_payload_witness:
  "writes_to 1 (broadcast_command [(board_at ''E1'' ''B1'', answering []),
                                   (board_at ''E2'' ''B2'', answering []),
                                   (board_at ''E3'' ''B3'', answering [])] ''sync stop 200'')
     = [[115, 121, 110, 99, 32, 115, 116, 111, 112, 32, 50, 48, 48, 10]]"
proof -
  let ?bs = "[(board_at ''E1'' ''B1'', answering []), (board_at ''E2'' ''B2'', answering []),
              (board_at ''E3'' ''B3'', answering [])]"
  have d: "distinct (map (board_id \<circ> fst) ?bs)" by (simp add: board_at_def)
  have l: "1 < length ?bs" by simp
  have o: "open_error (snd (?bs ! 1)) = None" by (simp add: answering_def)
  have s: "str_strip ''sync stop 200'' = ''sync stop 200''"
    using broadcast_payload[of ?bs 1 "''sync stop 200''"] by (simp add: isspace_def)
  have "writes_to 1 (broadcast_command ?bs ''sync stop 200'')
          = [encode_utf8 (str_strip ''sync stop 200'') @ [0x0A]]"
    using broadcast_payload[of ?bs 1 "''sync stop 200''"] d l o by blast
  also have "\<dots> = [[115, 121, 110, 99, 32, 115, 116, 111, 112, 32, 50, 48, 48, 10]]"
    using broadcast_payload[of ?bs 1 "''sync stop 200''"] by simp
  finally show ?thesis .
qed


text \<open>
  Claim C6, as stated, fails on a board list that repeats a board ID: with boards \<^verbatim>\<open>B1\<close>
  at \<^verbatim>\<open>COM3\<close> and at \<^verbatim>\<open>COM4\<close>, both opening, and \<^verbatim>\<open>B2\<close> at \<^verbatim>\<open>COM5\<close> failing to
  open, the warning for \<^verbatim>\<open>B2\<close> is printed and \<^verbatim>\<open>COM4\<close> is written, but \<^verbatim>\<open>COM3\<close>,
  whose transport did open, is displaced from the table (and closed) and gets no write.
\<close>

theorem broadcast_open_failure_counterexample:
  "broadcast_command [(board_at ''COM3'' ''B1'', answering []),
                      (board_at ''COM4'' ''B1'', answering []),
                      (board_at ''COM5'' ''B2'',
                       (answering [])\<lparr>open_error := Some SerialException\<rparr>)] ''sync stop 200''
     = [OpenPort 0, OpenPort 1, Close 0, OpenFailed 2,
        Print (WarnCouldNotOpen ''B2'' ''COM5'' SerialException),
        ResetInputBuffer 1,
        Write 1 [115, 121, 110, 99, 32, 115, 116, 111, 112, 32, 50, 48, 48, 10],
        Flush 1, ReadLinesFor 1, Close 1]
   \<and> OpenPort 0 \<in> set (broadcast_command [(board_at ''COM3'' ''B1'', answering []),
                      (board_at ''COM4'' ''B1'', answering []),
                      (board_at ''COM5'' ''B2'',
                       (answering [])\<lparr>open_error := Some SerialException\<rparr>)] ''sync stop 200'')
   \<and> writes_to 0 (broadcast_command [(board_at ''COM3'' ''B1'', answering []),
                      (board_at ''COM4'' ''B1'', answering []),
                      (board_at ''COM5'' ''B2'',
                       (answering [])\<lparr>open_error := Some SerialException\<rparr>)] ''sync stop 200'')
     = []"
  by code_simp

text \<open>
  Claim C6, amended. For every board list with pairwise distinct board IDs and every
  outcome of the opens: a board whose open fails is reported with a warning that names
  it, its transport is not opened and gets no call (no write, flush, read or close), and
  no acknowledgement trace is printed under its board ID; every board whose open
  succeeds gets the input-buffer reset, the write of the framed command, the flush, the
  read and the close, whatever the other opens did.
\<close>

theorem broadcast_open_failure_isolated:
  "distinct (map (board_id \<circ> fst) bs) \<and> i < length bs \<longrightarrow>
     (open_error (snd (bs ! i)) = Some e \<longrightarrow>
        Print (WarnCouldNotOpen (board_id (fst (bs ! i))) (port (fst (bs ! i))) e)
          \<in> set (broadcast_command bs cmd)
        \<and> OpenPort i \<notin> set (broadcast_command bs cmd)
        \<and> calls_on i (broadcast_command bs cmd) = []
        \<and> Print (AckTrace (board_id (fst (bs ! i))) ls) \<notin> set (broadcast_command bs cmd))
     \<and> (open_error (snd (bs ! i)) = None \<longrightarrow>
        calls_on i (broadcast_command bs cmd)
          = [ResetInputBuffer i, Write i (framed cmd), Flush i, ReadLinesFor i, Close i]
        \<and> writes_to i (broadcast_command bs cmd) = [framed cmd])"
proof -
  let ?tr = "broadcast_command bs cmd"
  have no_ack: "Print (AckTrace (board_id (fst (bs ! i))) ls) \<notin> set ?tr"
    if d: "distinct (map (board_id \<circ> fst) bs)" and l: "i < length bs"
      and f: "open_error (snd (bs ! i)) = Some e"
  proof
    assume "Print (AckTrace (board_id (fst (bs ! i))) ls) \<in> set ?tr"
    then obtain v where "(board_id (fst (bs ! i)), v) \<in> set (snd (open_ports (enumerate 0 bs) []))"
      using ack_from_table by blast
    then obtain j where j: "retained_at bs j" "board_id (fst (bs ! j)) = board_id (fst (bs ! i))"
      unfolding in_sers_iff last_open_enumerate by blast
    have "(map (board_id \<circ> fst) bs ! j = map (board_id \<circ> fst) bs ! i) = (j = i)"
      using d l retained_at_less[OF j(1)] by (intro nth_eq_iff_index_eq) auto
    then have "j = i" using j(2) l retained_at_less[OF j(1)] by simp
    then show False using retained_at_open[OF j(1)] f by simp
  qed
  have failed: "Print (WarnCouldNotOpen (board_id (fst (bs ! i))) (port (fst (bs ! i))) e) \<in> set ?tr
        \<and> OpenPort i \<notin> set ?tr \<and> calls_on i ?tr = []"
    if "i < length bs" and "open_error (snd (bs ! i)) = Some e"
    using broadcast_open_failure[OF that] .
  have opened: "calls_on i ?tr
          = [ResetInputBuffer i, Write i (framed cmd), Flush i, ReadLinesFor i, Close i]
        \<and> writes_to i ?tr = [framed cmd]"
    if "distinct (map (board_id \<circ> fst) bs)" and "i < length bs"
      and "open_error (snd (bs ! i)) = None"
    using broadcast_distinct_ids[OF that] that
    by (simp add: broadcast_writes retained_at_distinct)
  show ?thesis using no_ack failed opened by blast
qed

theorem broadcast_open_failure_isolated_witness:
  "Print (WarnCouldNotOpen ''B2'' ''COM4'' SerialException)
     \<in> set (broadcast_command [(board_at ''COM3'' ''B1'', answering [''OK'']),
                               (board_at ''COM4'' ''B2'',
                                (answering [''OK''])\<lparr>open_error := Some SerialException\<rparr>),
                               (board_at ''COM5'' ''B3'', answering [''OK''])] ''sync stop 200'')
   \<and> calls_on 1 (broadcast_command [(board_at ''COM3'' ''B1'', answering [''OK'']),
                               (board_at ''COM4'' ''B2'',
                                (answering [''OK''])\<lparr>open_error := Some SerialException\<rparr>),
                               (board_at ''COM5'' ''B3'', answering [''OK''])] ''sync stop 200'') = []
   \<and> Print (AckTrace ''B2'' [''OK''])
     \<notin> set (broadcast_command [(board_at ''COM3'' ''B1'', answering [''OK'']),
                               (board_at ''COM4'' ''B2'',
                                (answering [''OK''])\<lparr>open_error := Some SerialException\<rparr>),
                               (board_at ''COM5'' ''B3'', answering [''OK''])] ''sync stop 200'')
   \<and> writes_to 0 (broadcast_command [(board_at ''COM3'' ''B1'', answering [''OK'']),
                               (board_at ''COM4'' ''B2'',
                                (answering [''OK''])\<lparr>open_error := Some SerialException\<rparr>),
                               (board_at ''COM5'' ''B3'', answering [''OK''])] ''sync stop 200'')
     = [framed ''sync stop 200'']
   \<and> writes_to 2 (broadcast_command [(board_at ''COM3'' ''B1'', answering [''OK'']),
                               (board_at ''COM4'' ''B2'',
                                (answering [''OK''])\<lparr>open_error := Some SerialException\<rparr>),
                               (board_at ''COM5'' ''B3'', answering [''OK''])] ''sync stop 200'')
     = [framed ''sync stop 200'']"
proof -
  let ?bs = "[(board_at ''COM3'' ''B1'', answering [''OK'']),
              (board_at ''COM4'' ''B2'', (answering [''OK''])\<lparr>open_error := Some SerialException\<rparr>),
              (board_at ''COM5'' ''B3'', answering [''OK''])]"
  have d: "distinct (map (board_id \<circ> fst) ?bs)" by (simp add: board_at_def)
  have l: "0 < length ?bs" "1 < length ?bs" "2 < length ?bs" by simp_all
  have o: "open_error (snd (?bs ! 0)) = None"
    "open_error (snd (?bs ! 1)) = Some SerialException"
    "open_error (snd (?bs ! 2)) = None"
    by (simp_all add: answering_def)
  have n: "board_id (fst (?bs ! 1)) = ''B2''" "port (fst (?bs ! 1)) = ''COM4''"
    by (simp_all add: board_at_def)
  have a: "Print (WarnCouldNotOpen (board_id (fst (?bs ! 1))) (port (fst (?bs ! 1))) SerialException)
          \<in> set (broadcast_command ?bs ''sync stop 200'')
        \<and> calls_on 1 (broadcast_command ?bs ''sync stop 200'') = []
        \<and> Print (AckTrace (board_id (fst (?bs ! 1))) [''OK''])
            \<notin> set (broadcast_command ?bs ''sync stop 200'')"
    using broadcast_open_failure_isolated[of ?bs 1 SerialException "''sync stop 200''" "[''OK'']"]
          d l(2) o(2) by blast
  have b: "writes_to 0 (broadcast_command ?bs ''sync stop 200'') = [framed ''sync stop 200'']"
    using broadcast_open_failure_isolated[of ?bs 0 SerialException "''sync stop 200''" "[]"]
          d l(1) o(1) by blast
  have c: "writes_to 2 (broadcast_command ?bs ''sync stop 200'') = [framed ''sync stop 200'']"
    using broadcast_open_failure_isolated[of ?bs 2 SerialException "''sync stop 200''" "[]"]
          d l(3) o(3) by blast
  show ?thesis using a b c unfolding n by blast
qed




section \<open>Closing the transports\<close>














end
